theory Spec2Isabelle
  imports Main "HOL-Library.AList" "HOL-Library.Word"
begin

section \<open>Data model of \<open>core/transcription_logic.py\<close>\<close>

text \<open>
  Python dictionaries keep their keys in insertion order, and the code iterates over them
  (\<open>user_transcripts.items()\<close>, \<open>list(audio_buffers.keys())\<close>, \<open>sessions.values()\<close>), so
  every dictionary is an association list: \<open>map_of d k\<close> is the lookup, \<open>AList.update k v d\<close>
  is \<open>d[k] = v\<close> (the value is replaced in place when the key is present, the pair is added
  at the end otherwise), \<open>AList.delete k d\<close> is \<open>del d[k]\<close> and \<open>map fst d\<close> is
  \<open>list(d.keys())\<close>. Guild and user ids are Python integers, audio is a sequence of bytes.
\<close>

type_synonym byte = "8 word"
type_synonym pcm = "byte list"

record session =
  is_recording :: bool
  user_transcripts :: "(int \<times> string list) list"
  user_names :: "(int \<times> string) list"
  audio_buffers :: "(int \<times> pcm) list"

type_synonym sessions = "(int \<times> session) list"

text \<open>\<open>Session.__init__\<close>.\<close>

definition Session :: session where
  "Session = \<lparr>is_recording = False, user_transcripts = [], user_names = [], audio_buffers = []\<rparr>"

text \<open>\<open>d.get(k, dflt)\<close>; also the value that \<open>d.setdefault(k, dflt)\<close> returns.\<close>

definition dict_get :: "('k \<times> 'v) list \<Rightarrow> 'k \<Rightarrow> 'v \<Rightarrow> 'v" where
  "dict_get d k dflt = (case map_of d k of None \<Rightarrow> dflt | Some v \<Rightarrow> v)"

text \<open>
  A speaker's pending audio (\<open>session.audio_buffers.get(user_id, b"")\<close>) and the speaker's
  transcript segments so far.
\<close>

abbreviation buffered :: "session \<Rightarrow> int \<Rightarrow> pcm" where
  "buffered s u \<equiv> dict_get (audio_buffers s) u []"

abbreviation segments :: "session \<Rightarrow> int \<Rightarrow> string list" where
  "segments s u \<equiv> dict_get (user_transcripts s) u []"

subsection \<open>Strings\<close>

text \<open>
  \<open>str.strip()\<close> removes leading and trailing whitespace; for the characters below 256
  Python's whitespace is 0x09-0x0D, 0x1C-0x1F, 0x20, 0x85 and 0xA0.
\<close>

definition is_space :: "char \<Rightarrow> bool" where
  "is_space c = (let n = of_char c :: nat in
     (9 \<le> n \<and> n \<le> 13) \<or> (28 \<le> n \<and> n \<le> 32) \<or> n = 133 \<or> n = 160)"

definition strip :: "string \<Rightarrow> string" where
  "strip s = rev (dropWhile is_space (rev (dropWhile is_space s)))"

text \<open>\<open>str(n)\<close> for an integer, as the f-string \<open>f"User {uid}"\<close> formats it.\<close>

definition digit_char :: "nat \<Rightarrow> char" where
  "digit_char d = ''0123456789'' ! d"

fun str_nat :: "nat \<Rightarrow> string" where
  "str_nat n = (if n < 10 then [digit_char n] else str_nat (n div 10) @ [digit_char (n mod 10)])"

declare str_nat.simps [simp del]

definition str_int :: "int \<Rightarrow> string" where
  "str_int i = (if i < 0 then CHR ''-'' # str_nat (nat (- i)) else str_nat (nat i))"

definition nl :: string where
  "nl = [CHR 0x0A]"

text \<open>\<open>sep.join(xs)\<close>.\<close>

fun join :: "string \<Rightarrow> string list \<Rightarrow> string" where
  "join sep [] = []"
| "join sep [x] = x"
| "join sep (x # y # ys) = x @ sep @ join sep (y # ys)"

subsection \<open>Session methods\<close>

text \<open>
  \<open>append_final_line\<close>: \<open>self.user_transcripts.setdefault(user_id, []).append(text)\<close>.
\<close>

definition append_final_line :: "int \<Rightarrow> string \<Rightarrow> session \<Rightarrow> session" where
  "append_final_line user_id text s =
     s\<lparr>user_transcripts :=
         AList.update user_id (dict_get (user_transcripts s) user_id [] @ [text])
           (user_transcripts s)\<rparr>"

text \<open>
  \<open>get_combined_transcript\<close>: the outer loop runs over the items of \<open>user_transcripts\<close>,
  the inner loop (\<open>speaker_lines\<close>) over one speaker's texts; \<open>speaker_label\<close> is
  \<open>self.user_names.get(uid, f"User {uid}")\<close>.
\<close>

definition speaker_label :: "(int \<times> string) list \<Rightarrow> int \<Rightarrow> string" where
  "speaker_label names uid = dict_get names uid (''User '' @ str_int uid)"

definition speaker_lines :: "(int \<times> string) list \<Rightarrow> int \<times> string list \<Rightarrow> string list" where
  "speaker_lines names item =
     (case item of (uid, texts) \<Rightarrow>
        map (\<lambda>t. speaker_label names uid @ '':'' @ nl @ t @ nl) texts)"

definition transcript_lines :: "session \<Rightarrow> string list" where
  "transcript_lines s = concat (map (speaker_lines (user_names s)) (user_transcripts s))"

definition get_combined_transcript :: "session \<Rightarrow> string" where
  "get_combined_transcript s = join nl (transcript_lines s)"

section \<open>The session manager\<close>

text \<open>
  \<open>self.sessions\<close> is the manager's only attribute. A method that obtains a session object
  and mutates it through the reference is modelled by writing the changed session back
  under its guild id.
\<close>

text \<open>
  \<open>get_or_create_session\<close> returns the session together with the dictionary, which holds
  a new \<open>Session()\<close> when the guild had none.
\<close>

definition get_or_create_session :: "int \<Rightarrow> sessions \<Rightarrow> session \<times> sessions" where
  "get_or_create_session guild_id m =
     (case map_of m guild_id of
        None \<Rightarrow> (Session, AList.update guild_id Session m)
      | Some s \<Rightarrow> (s, m))"

definition remove_session :: "int \<Rightarrow> sessions \<Rightarrow> sessions" where
  "remove_session guild_id m =
     (if guild_id \<in> fst ` set m then AList.delete guild_id m else m)"

definition start_recording :: "int \<Rightarrow> sessions \<Rightarrow> session \<times> sessions" where
  "start_recording guild_id m =
     (case get_or_create_session guild_id m of
        (s, m1) \<Rightarrow>
          let s1 = s\<lparr>is_recording := True\<rparr>
          in (s1, AList.update guild_id s1 m1))"

definition process_audio_chunk :: "int \<Rightarrow> int \<Rightarrow> pcm \<Rightarrow> sessions \<Rightarrow> sessions" where
  "process_audio_chunk guild_id user_id pcm_data m =
     (case get_or_create_session guild_id m of
        (s, m1) \<Rightarrow>
          if \<not> is_recording s then m1
          else AList.update guild_id
                 (s\<lparr>audio_buffers :=
                      AList.update user_id (dict_get (audio_buffers s) user_id [] @ pcm_data)
                        (audio_buffers s)\<rparr>) m1)"

definition set_user_name :: "int \<Rightarrow> int \<Rightarrow> string \<Rightarrow> sessions \<Rightarrow> sessions" where
  "set_user_name guild_id user_id display_name m =
     (case get_or_create_session guild_id m of
        (s, m1) \<Rightarrow>
          AList.update guild_id
            (s\<lparr>user_names := AList.update user_id display_name (user_names s)\<rparr>) m1)"

subsection \<open>The flush pipeline\<close>

text \<open>
  What happens to a swapped-out block outside the program is a parameter of the model.
  \<open>PersistError\<close>: writing the temporary PCM file raises; this is before the \<open>try\<close>, so the
  exception leaves \<open>_flush_buffer\<close>. \<open>PipelineError\<close>: \<open>convert_pcm_to_wav\<close>, the recorder
  or \<open>.strip()\<close> raises an \<open>Exception\<close> inside the \<open>try\<close>, which the \<open>except\<close> clause
  catches. \<open>Transcribed raw\<close>: \<open>transcribe_file\<close> returns the text \<open>raw\<close>. The removal of the
  temporary files in the \<open>finally\<close> clause is taken to succeed.
\<close>

datatype flush_outcome = PersistError | PipelineError | Transcribed string

type_synonym pipeline = "int \<Rightarrow> pcm \<Rightarrow> flush_outcome"

text \<open>
  A flush yields: whether an exception leaves the call, the blocks swapped out of the
  buffers for the pipeline (user id and \<open>buffer_data\<close>; with \<open>PersistError\<close> the write of
  the block is what fails), and the session as the call leaves it.
\<close>

type_synonym flush_result = "bool \<times> (int \<times> pcm) list \<times> session"

definition flush_buffer :: "pipeline \<Rightarrow> session \<Rightarrow> int \<Rightarrow> flush_result" where
  "flush_buffer pipe s user_id =
     (let buffer_data = dict_get (audio_buffers s) user_id [] in
      if buffer_data = [] then (False, [], s)
      else
        let s1 = s\<lparr>audio_buffers := AList.update user_id [] (audio_buffers s)\<rparr> in
        case pipe user_id buffer_data of
          PersistError \<Rightarrow> (True, [(user_id, buffer_data)], s1)
        | PipelineError \<Rightarrow> (False, [(user_id, buffer_data)], s1)
        | Transcribed raw \<Rightarrow>
            (False, [(user_id, buffer_data)], append_final_line user_id (strip raw) s1))"

text \<open>
  The loop of \<open>stop_recording\<close>: \<open>for user_id in list(session.audio_buffers.keys())\<close>.
  An exception leaving one flush ends the loop.
\<close>

fun flush_all :: "pipeline \<Rightarrow> int list \<Rightarrow> session \<Rightarrow> flush_result" where
  "flush_all pipe [] s = (False, [], s)"
| "flush_all pipe (u # us) s =
     (case flush_buffer pipe s u of
        (True, h, s1) \<Rightarrow> (True, h, s1)
      | (False, h, s1) \<Rightarrow>
          (case flush_all pipe us s1 of (r, h', s2) \<Rightarrow> (r, h @ h', s2)))"

text \<open>
  \<open>stop_recording\<close> returns the transcript, or raises (\<open>None\<close>) when a flush did; the
  blocks handed to the pipeline carry the guild id.
\<close>

type_synonym handed = "(int \<times> int \<times> pcm) list"

definition stop_recording :: "pipeline \<Rightarrow> int \<Rightarrow> sessions \<Rightarrow> string option \<times> handed \<times> sessions" where
  "stop_recording pipe guild_id m =
     (case get_or_create_session guild_id m of
        (s, m1) \<Rightarrow>
          let s1 = s\<lparr>is_recording := False\<rparr> in
          case flush_all pipe (map fst (audio_buffers s1)) s1 of
            (raised, h, s2) \<Rightarrow>
              (if raised then None else Some (get_combined_transcript s2),
               map (Pair guild_id) h,
               AList.update guild_id s2 m1))"

text \<open>
  One pass of the \<open>while True\<close> loop of \<open>_buffer_flusher\<close>: \<open>flusher_users\<close> is the loop over
  the users of one recording session, \<open>flusher_sessions\<close> the loop over
  \<open>self.sessions.values()\<close>. The pipeline may answer differently for each guild.
\<close>

fun flusher_users :: "pipeline \<Rightarrow> int list \<Rightarrow> session \<Rightarrow> flush_result" where
  "flusher_users pipe [] s = (False, [], s)"
| "flusher_users pipe (u # us) s =
     (if dict_get (audio_buffers s) u [] \<noteq> [] then
        (case flush_buffer pipe s u of
           (True, h, s1) \<Rightarrow> (True, h, s1)
         | (False, h, s1) \<Rightarrow>
             (case flusher_users pipe us s1 of (r, h', s2) \<Rightarrow> (r, h @ h', s2)))
      else flusher_users pipe us s)"

fun flusher_sessions :: "(int \<Rightarrow> pipeline) \<Rightarrow> sessions \<Rightarrow> bool \<times> handed \<times> sessions" where
  "flusher_sessions pipes [] = (False, [], [])"
| "flusher_sessions pipes ((g, s) # rest) =
     (if is_recording s then
        (case flusher_users (pipes g) (map fst (audio_buffers s)) s of
           (True, h, s1) \<Rightarrow> (True, map (Pair g) h, (g, s1) # rest)
         | (False, h, s1) \<Rightarrow>
             (case flusher_sessions pipes rest of
                (r, h', rest') \<Rightarrow> (r, map (Pair g) h @ h', (g, s1) # rest')))
      else
        (case flusher_sessions pipes rest of (r, h', rest') \<Rightarrow> (r, h', (g, s) # rest')))"

section \<open>Sequences of operations\<close>

text \<open>
  The calls that reach a manager, one after the other: the five public methods, one
  pass of the background flusher, and a single \<open>_flush_buffer\<close> on the session of a guild
  (a flusher pass cut at one user, so that other calls can come between two flushes of
  the same pass). Calls that flush carry the answers of the pipeline.
\<close>

datatype op =
    Start int
  | Stop int pipeline
  | Chunk int int pcm
  | SetName int int string
  | Remove int
  | Tick "int \<Rightarrow> pipeline"
  | Flush int int pipeline

definition flush_session :: "pipeline \<Rightarrow> int \<Rightarrow> int \<Rightarrow> sessions \<Rightarrow> handed \<times> sessions" where
  "flush_session pipe guild_id user_id m =
     (case map_of m guild_id of
        None \<Rightarrow> ([], m)
      | Some s \<Rightarrow>
          (case flush_buffer pipe s user_id of
             (raised, h, s1) \<Rightarrow> (map (Pair guild_id) h, AList.update guild_id s1 m)))"

text \<open>
  \<open>exec\<close> runs one call and gives the blocks it hands to the pipeline and the manager's
  dictionary afterwards; an exception leaving the call goes to the caller and the
  dictionary stays as the call left it.
\<close>

fun exec :: "op \<Rightarrow> sessions \<Rightarrow> handed \<times> sessions" where
  "exec (Start g) m = ([], snd (start_recording g m))"
| "exec (Stop g pipe) m = snd (stop_recording pipe g m)"
| "exec (Chunk g u d) m = ([], process_audio_chunk g u d m)"
| "exec (SetName g u n) m = ([], set_user_name g u n m)"
| "exec (Remove g) m = ([], remove_session g m)"
| "exec (Tick pipes) m = snd (flusher_sessions pipes m)"
| "exec (Flush g u pipe) m = flush_session pipe g u m"

fun run :: "op list \<Rightarrow> sessions \<Rightarrow> handed \<times> sessions" where
  "run [] m = ([], m)"
| "run (c # cs) m =
     (case exec c m of (h, m1) \<Rightarrow> (case run cs m1 of (h', m2) \<Rightarrow> (h @ h', m2)))"

text \<open>Whether the guild's session is recording; a guild without a session is not.\<close>

definition recording :: "sessions \<Rightarrow> int \<Rightarrow> bool" where
  "recording m g = (case map_of m g of None \<Rightarrow> False | Some s \<Rightarrow> is_recording s)"

text \<open>A speaker's buffer in a guild's session, if both exist.\<close>

definition buffer_of :: "sessions \<Rightarrow> int \<Rightarrow> int \<Rightarrow> pcm option" where
  "buffer_of m g u = (case map_of m g of None \<Rightarrow> None | Some s \<Rightarrow> map_of (audio_buffers s) u)"

text \<open>
  The chunks of speaker \<open>u\<close> in guild \<open>g\<close> that \<open>process_audio_chunk\<close> accepted during a
  sequence of calls (the session was recording when the call came), in call order.
\<close>

fun accepted :: "int \<Rightarrow> int \<Rightarrow> op list \<Rightarrow> sessions \<Rightarrow> pcm list" where
  "accepted g u [] m = []"
| "accepted g u (c # cs) m =
     (case c of
        Chunk g' u' d \<Rightarrow> (if g' = g \<and> u' = u \<and> recording m g then [d] else [])
      | _ \<Rightarrow> []) @ accepted g u cs (snd (exec c m))"

text \<open>The blocks handed to the pipeline for speaker \<open>u\<close> of guild \<open>g\<close>, in flush order.\<close>

definition handed_for :: "int \<Rightarrow> int \<Rightarrow> handed \<Rightarrow> pcm list" where
  "handed_for g u h = map (\<lambda>(g', u', d). d) (filter (\<lambda>(g', u', d). g' = g \<and> u' = u) h)"

text \<open>A speaker's pending audio in the session of a guild; none without a session.\<close>

definition pending :: "sessions \<Rightarrow> int \<Rightarrow> int \<Rightarrow> pcm" where
  "pending m g u = (case map_of m g of None \<Rightarrow> [] | Some s \<Rightarrow> buffered s u)"

text \<open>
  The lines that \<open>get_combined_transcript\<close> emits while its loop variable \<open>uid\<close> is a given
  speaker: \<open>transcript_items\<close> are the items of \<open>user_transcripts\<close> with that key.
\<close>

definition transcript_items :: "session \<Rightarrow> int \<Rightarrow> (int \<times> string list) list" where
  "transcript_items s uid = filter (\<lambda>item. fst item = uid) (user_transcripts s)"

definition speaker_blocks :: "session \<Rightarrow> int \<Rightarrow> string list" where
  "speaker_blocks s uid = concat (map (speaker_lines (user_names s)) (transcript_items s uid))"

definition items_of :: "sessions \<Rightarrow> int \<Rightarrow> int \<Rightarrow> (int \<times> string list) list" where
  "items_of m g u = (case map_of m g of None \<Rightarrow> [] | Some s \<Rightarrow> transcript_items s u)"

definition blocks_of :: "sessions \<Rightarrow> int \<Rightarrow> int \<Rightarrow> string list" where
  "blocks_of m g u = (case map_of m g of None \<Rightarrow> [] | Some s \<Rightarrow> speaker_blocks s u)"

text \<open>
  The text that \<open>get_combined_transcript\<close> gives for the session of a guild; a guild
  without a session has the empty one.
\<close>

definition transcript_of :: "sessions \<Rightarrow> int \<Rightarrow> string" where
  "transcript_of m g = (case map_of m g of None \<Rightarrow> [] | Some s \<Rightarrow> get_combined_transcript s)"

text \<open>
  Whether a call can append a segment for speaker \<open>u\<close> of guild \<open>g\<close>: it flushes in \<open>g\<close>
  with a pipeline that returns a text for some block of \<open>u\<close>.
\<close>

fun never_transcribes :: "int \<Rightarrow> int \<Rightarrow> op \<Rightarrow> bool" where
  "never_transcribes g u (Stop g' pipe) = (g' = g \<longrightarrow> (\<forall>d raw. pipe u d \<noteq> Transcribed raw))"
| "never_transcribes g u (Flush g' u' pipe) =
     (g' = g \<and> u' = u \<longrightarrow> (\<forall>d raw. pipe u d \<noteq> Transcribed raw))"
| "never_transcribes g u (Tick pipes) = (\<forall>d raw. pipes g u d \<noteq> Transcribed raw)"
| "never_transcribes g u _ = True"

subsection \<open>The transcript in the words of the specification\<close>

text \<open>
  For each speaker in first-seen order and each of the speaker's segments in arrival
  order, the block \<open>"{displayNameOrFallback}:\n{segment}\n"\<close>; consecutive blocks are
  separated by a blank line, that is, every block but the last is followed by one more
  newline. The specification leaves the fallback label open (a placeholder made from the
  speaker id); it is the code's \<open>User\<close>, a space and the decimal id.
\<close>

definition display_name_or_fallback :: "(int \<times> string) list \<Rightarrow> int \<Rightarrow> string" where
  "display_name_or_fallback names uid =
     (case map_of names uid of Some name \<Rightarrow> name | None \<Rightarrow> ''User '' @ str_int uid)"

fun spec_blocks :: "(int \<times> string) list \<Rightarrow> (int \<times> string list) list \<Rightarrow> string list" where
  "spec_blocks names [] = []"
| "spec_blocks names ((uid, []) # speakers) = spec_blocks names speakers"
| "spec_blocks names ((uid, segment # later) # speakers) =
     (display_name_or_fallback names uid @ '':'' @ nl @ segment @ nl)
       # spec_blocks names ((uid, later) # speakers)"

definition spec_combined_transcript :: "session \<Rightarrow> string" where
  "spec_combined_transcript s =
     (case spec_blocks (user_names s) (user_transcripts s) of
        [] \<Rightarrow> []
      | blocks \<Rightarrow> butlast (concat (map (\<lambda>block. block @ nl) blocks)))"

subsection \<open>Pipelines and a session for concrete runs\<close>

text \<open>
  Pipelines for concrete runs: one that answers the same for every block, and one whose
  conversion or transcription fails for a single speaker.
\<close>

definition always :: "flush_outcome \<Rightarrow> pipeline" where
  "always r u d = r"

definition fails_for :: "int \<Rightarrow> string \<Rightarrow> pipeline" where
  "fails_for bad raw u d = (if u = bad then PipelineError else Transcribed raw)"

text \<open>
  A session for concrete runs: recording, speaker 3 has one segment already, speakers 2
  and 3 have pending audio, speaker 4 has a buffer that an earlier flush emptied, and
  speaker 2 has a display name.
\<close>

definition example_session :: session where
  "example_session =
     \<lparr>is_recording = True, user_transcripts = [(3, [''a''])], user_names = [(2, ''Ann'')],
      audio_buffers = [(2, [5]), (3, [6, 7]), (4, [])]\<rparr>"

section \<open>Ingesting audio\<close>

text \<open>
  C6. \<open>process_audio_chunk\<close> for a guild whose session is not recording (or that has no
  session yet) leaves every speaker buffer of every session as it was; for a recording
  session it puts exactly the given bytes at the end of that speaker's buffer (an absent
  buffer counts as empty) and changes no other buffer. The model has no error result for
  this call, as the method raises nothing.
\<close>

theorem process_audio_chunk_frame:
  "(\<not> recording m g \<longrightarrow>
      (\<forall>g' u'. buffer_of (process_audio_chunk g u d m) g' u' = buffer_of m g' u')) \<and>
   (recording m g \<longrightarrow>
      buffer_of (process_audio_chunk g u d m) g u =
        Some ((case buffer_of m g u of None \<Rightarrow> [] | Some b \<Rightarrow> b) @ d) \<and>
      (\<forall>g' u'. (g', u') \<noteq> (g, u) \<longrightarrow>
         buffer_of (process_audio_chunk g u d m) g' u' = buffer_of m g' u'))"
  by (auto simp: process_audio_chunk_def get_or_create_session_def recording_def buffer_of_def
        dict_get_def update_conv' Session_def split: option.splits)

theorem process_audio_chunk_frame_witness:
  "\<not> recording [(4, Session\<lparr>audio_buffers := [(2, [9])]\<rparr>)] 4 \<and>
   buffer_of (process_audio_chunk 4 2 [3] [(4, Session\<lparr>audio_buffers := [(2, [9])]\<rparr>)]) 4 2 = Some [9] \<and>
   recording [(1, Session\<lparr>is_recording := True, audio_buffers := [(2, [9]), (5, [7])]\<rparr>)] 1 \<and>
   buffer_of (process_audio_chunk 1 2 [3]
       [(1, Session\<lparr>is_recording := True, audio_buffers := [(2, [9]), (5, [7])]\<rparr>)]) 1 2 = Some [9, 3] \<and>
   (1, 5) \<noteq> (1, 2 :: int) \<and>
   buffer_of (process_audio_chunk 1 2 [3]
       [(1, Session\<lparr>is_recording := True, audio_buffers := [(2, [9]), (5, [7])]\<rparr>)]) 1 5 = Some [7]"
  using process_audio_chunk_frame [of "[(4, Session\<lparr>audio_buffers := [(2, [9])]\<rparr>)]" 4 2 "[3]"]
    process_audio_chunk_frame [of "[(1, Session\<lparr>is_recording := True, audio_buffers := [(2, [9]), (5, [7])]\<rparr>)]" 1 2 "[3]"]
  by (simp add: recording_def buffer_of_def Session_def)

lemma remove_session_delete: "remove_session g m = AList.delete g m"
  by (simp add: remove_session_def)

lemma get_or_create_after_remove:
  "get_or_create_session g (remove_session g m) =
     (Session, AList.update g Session (AList.delete g m))"
  by (simp add: remove_session_delete get_or_create_session_def delete_conv')

section \<open>Removing a session\<close>

text \<open>
  C7. \<open>remove_session\<close> leaves no session under the guild id, leaves the dictionary as it
  is when the guild has no session, and does not touch the sessions of other guilds.
  The next \<open>get_or_create_session\<close> for the guild yields a new \<open>Session()\<close>: not
  recording, with no transcripts, names or buffers. So the four methods that go through
  \<open>get_or_create_session\<close> act as on a guild never seen: \<open>start_recording\<close> returns the
  new session with the flag set, \<open>process_audio_chunk\<close> drops the chunk and leaves the new
  session, \<open>set_user_name\<close> leaves the new session with that one name, and
  \<open>stop_recording\<close> returns the empty transcript.
\<close>

theorem remove_session_fresh:
  "map_of (remove_session g m) g = None \<and>
   (g \<notin> fst ` set m \<longrightarrow> remove_session g m = m) \<and>
   (\<forall>g'. g' \<noteq> g \<longrightarrow> map_of (remove_session g m) g' = map_of m g') \<and>
   fst (get_or_create_session g (remove_session g m)) = Session \<and>
   map_of (snd (get_or_create_session g (remove_session g m))) g = Some Session \<and>
   is_recording Session = False \<and> user_transcripts Session = [] \<and>
   user_names Session = [] \<and> audio_buffers Session = [] \<and>
   fst (start_recording g (remove_session g m)) = Session\<lparr>is_recording := True\<rparr> \<and>
   map_of (process_audio_chunk g u d (remove_session g m)) g = Some Session \<and>
   map_of (set_user_name g u n (remove_session g m)) g = Some (Session\<lparr>user_names := [(u, n)]\<rparr>) \<and>
   fst (stop_recording pipe g (remove_session g m)) = Some [] \<and>
   map_of (snd (snd (stop_recording pipe g (remove_session g m)))) g = Some Session"
proof -
  have a: "map_of (remove_session g m) g = None"
    by (simp add: remove_session_delete delete_conv')
  have b: "g \<notin> fst ` set m \<longrightarrow> remove_session g m = m"
    by (simp add: remove_session_def)
  have c: "\<forall>g'. g' \<noteq> g \<longrightarrow> map_of (remove_session g m) g' = map_of m g'"
    by (simp add: remove_session_delete)
  have d: "is_recording Session = False \<and> user_transcripts Session = [] \<and>
           user_names Session = [] \<and> audio_buffers Session = []"
    by (simp add: Session_def)
  have e: "fst (start_recording g (remove_session g m)) = Session\<lparr>is_recording := True\<rparr>"
    by (simp add: start_recording_def get_or_create_after_remove Let_def)
  have f: "map_of (process_audio_chunk g u d (remove_session g m)) g = Some Session"
    by (simp add: process_audio_chunk_def get_or_create_after_remove update_conv' Session_def)
  have h: "map_of (set_user_name g u n (remove_session g m)) g = Some (Session\<lparr>user_names := [(u, n)]\<rparr>)"
    by (simp add: set_user_name_def get_or_create_after_remove update_conv' Session_def)
  have i: "stop_recording pipe g (remove_session g m) =
            (Some [], [], AList.update g Session (AList.update g Session (AList.delete g m)))"
    by (simp add: stop_recording_def get_or_create_after_remove Session_def Let_def
          get_combined_transcript_def transcript_lines_def)
  show ?thesis
    using a b c d e f h by (simp add: i get_or_create_after_remove update_conv')
qed

theorem remove_session_fresh_witness:
  "(7::int) \<notin> fst ` set [(3, Session\<lparr>is_recording := True\<rparr>)] \<and>
   remove_session 7 [(3, Session\<lparr>is_recording := True\<rparr>)] = [(3, Session\<lparr>is_recording := True\<rparr>)] \<and>
   (3::int) \<noteq> 7 \<and>
   map_of (remove_session 7 [(3, Session\<lparr>is_recording := True\<rparr>), (7, Session\<lparr>user_transcripts := [(1, [''hi''])]\<rparr>)]) 3
     = Some (Session\<lparr>is_recording := True\<rparr>) \<and>
   fst (get_or_create_session 7 (remove_session 7
      [(3, Session\<lparr>is_recording := True\<rparr>), (7, Session\<lparr>user_transcripts := [(1, [''hi''])]\<rparr>)])) = Session"
  using remove_session_fresh [of 7 "[(3, Session\<lparr>is_recording := True\<rparr>)]"]
    remove_session_fresh [of 7 "[(3, Session\<lparr>is_recording := True\<rparr>), (7, Session\<lparr>user_transcripts := [(1, [''hi''])]\<rparr>)]"]
  by simp

section \<open>Facts about dictionaries and the flush\<close>

lemma dict_get_update:
  "dict_get (AList.update k v d) k' dflt = (if k' = k then v else dict_get d k' dflt)"
  by (simp add: dict_get_def update_conv')

lemma buffered_nonempty_key: "buffered s u \<noteq> [] \<Longrightarrow> u \<in> fst ` set (audio_buffers s)"
  by (auto simp: dict_get_def split: option.splits dest: map_of_SomeD intro: rev_image_eqI)

lemma segments_append_final_line:
  "segments (append_final_line u t s) u' = (if u' = u then segments s u @ [t] else segments s u')"
  by (simp add: append_final_line_def dict_get_update)

lemma append_final_line_fields:
  "audio_buffers (append_final_line u t s) = audio_buffers s"
  "user_names (append_final_line u t s) = user_names s"
  "is_recording (append_final_line u t s) = is_recording s"
  by (simp_all add: append_final_line_def)

text \<open>What one \<open>_flush_buffer\<close> does, field by field.\<close>

lemma flush_buffer_empty:
  "buffered s u = [] \<Longrightarrow> flush_buffer pipe s u = (False, [], s)"
  by (simp add: flush_buffer_def)

lemma flush_buffer_raised:
  "fst (flush_buffer pipe s u) \<longleftrightarrow> buffered s u \<noteq> [] \<and> pipe u (buffered s u) = PersistError"
  by (simp add: flush_buffer_def Let_def split: flush_outcome.splits)

lemma flush_buffer_handed:
  "fst (snd (flush_buffer pipe s u)) = (if buffered s u = [] then [] else [(u, buffered s u)])"
  by (simp add: flush_buffer_def Let_def split: flush_outcome.splits)

lemma flush_buffer_buffers:
  "audio_buffers (snd (snd (flush_buffer pipe s u))) =
     (if buffered s u = [] then audio_buffers s else AList.update u [] (audio_buffers s))"
  by (simp add: flush_buffer_def Let_def append_final_line_fields split: flush_outcome.splits)

lemma flush_buffer_buffered:
  "buffered (snd (snd (flush_buffer pipe s u))) u' = (if u' = u then [] else buffered s u')"
  by (simp add: flush_buffer_buffers dict_get_update)

lemma flush_buffer_keys:
  "fst ` set (audio_buffers (snd (snd (flush_buffer pipe s u)))) = fst ` set (audio_buffers s)"
  using buffered_nonempty_key [of s u] by (auto simp: flush_buffer_buffers dom_update)

lemma flush_buffer_segments:
  "segments (snd (snd (flush_buffer pipe s u))) u' =
     segments s u' @
       (if u' = u \<and> buffered s u \<noteq> [] then
          (case pipe u (buffered s u) of Transcribed raw \<Rightarrow> [strip raw] | _ \<Rightarrow> [])
        else [])"
  by (simp add: flush_buffer_def Let_def segments_append_final_line split: flush_outcome.splits)

lemma flush_buffer_other_fields:
  "is_recording (snd (snd (flush_buffer pipe s u))) = is_recording s"
  "user_names (snd (snd (flush_buffer pipe s u))) = user_names s"
  by (simp_all add: flush_buffer_def Let_def append_final_line_fields split: flush_outcome.splits)

text \<open>The loop of \<open>stop_recording\<close>.\<close>

lemma flush_all_Cons:
  "flush_all pipe (u # us) s =
     (if fst (flush_buffer pipe s u) then flush_buffer pipe s u
      else (fst (flush_all pipe us (snd (snd (flush_buffer pipe s u)))),
            fst (snd (flush_buffer pipe s u)) @
              fst (snd (flush_all pipe us (snd (snd (flush_buffer pipe s u))))),
            snd (snd (flush_all pipe us (snd (snd (flush_buffer pipe s u)))))))"
  by (cases "flush_buffer pipe s u";
      cases "flush_all pipe us (snd (snd (flush_buffer pipe s u)))") auto

lemma flush_all_keys:
  "fst ` set (audio_buffers (snd (snd (flush_all pipe us s)))) = fst ` set (audio_buffers s)"
proof (induction us arbitrary: s)
  case Nil
  show ?case by simp
next
  case (Cons u us)
  show ?case
    by (simp add: flush_all_Cons Cons.IH flush_buffer_keys del: flush_all.simps)
qed

lemma flush_all_other_fields:
  "is_recording (snd (snd (flush_all pipe us s))) = is_recording s \<and>
   user_names (snd (snd (flush_all pipe us s))) = user_names s"
proof (induction us arbitrary: s)
  case Nil
  show ?case by simp
next
  case (Cons u us)
  show ?case
    by (simp add: flush_all_Cons Cons.IH flush_buffer_other_fields del: flush_all.simps)
qed

lemma flush_all_not_raised:
  "(\<forall>u \<in> set us. buffered s u \<noteq> [] \<longrightarrow> pipe u (buffered s u) \<noteq> PersistError) \<Longrightarrow>
   \<not> fst (flush_all pipe us s)"
proof (induction us arbitrary: s)
  case Nil
  show ?case by simp
next
  case (Cons u us)
  have "\<not> fst (flush_buffer pipe s u)"
    using Cons.prems by (auto simp: flush_buffer_raised)
  moreover have "\<not> fst (flush_all pipe us (snd (snd (flush_buffer pipe s u))))"
    using Cons.prems by (intro Cons.IH) (simp add: flush_buffer_buffered)
  ultimately show ?case
    by (simp add: flush_all_Cons del: flush_all.simps)
qed

lemma flush_all_buffered:
  "\<not> fst (flush_all pipe us s) \<Longrightarrow>
   buffered (snd (snd (flush_all pipe us s))) u = (if u \<in> set us then [] else buffered s u)"
proof (induction us arbitrary: s)
  case Nil
  show ?case by simp
next
  case (Cons v us)
  from Cons.prems have a: "\<not> fst (flush_buffer pipe s v)"
    and b: "\<not> fst (flush_all pipe us (snd (snd (flush_buffer pipe s v))))"
    by (auto simp: flush_all_Cons simp del: flush_all.simps split: if_splits)
  show ?case
    using a by (simp add: flush_all_Cons Cons.IH [OF b] flush_buffer_buffered del: flush_all.simps)
qed

lemma flush_all_segments:
  "\<not> fst (flush_all pipe us s) \<Longrightarrow>
   segments (snd (snd (flush_all pipe us s))) u =
     segments s u @
       (if u \<in> set us \<and> buffered s u \<noteq> [] then
          (case pipe u (buffered s u) of Transcribed raw \<Rightarrow> [strip raw] | _ \<Rightarrow> [])
        else [])"
proof (induction us arbitrary: s)
  case Nil
  show ?case by simp
next
  case (Cons v us)
  from Cons.prems have a: "\<not> fst (flush_buffer pipe s v)"
    and b: "\<not> fst (flush_all pipe us (snd (snd (flush_buffer pipe s v))))"
    by (auto simp: flush_all_Cons simp del: flush_all.simps split: if_splits)
  show ?case
    using a
    by (auto simp: flush_all_Cons Cons.IH [OF b] flush_buffer_buffered flush_buffer_segments
          simp del: flush_all.simps)
qed

lemma flush_all_handed:
  "\<not> fst (flush_all pipe us s) \<Longrightarrow>
   map snd (filter (\<lambda>p. fst p = u) (fst (snd (flush_all pipe us s)))) =
     (if u \<in> set us \<and> buffered s u \<noteq> [] then [buffered s u] else [])"
proof (induction us arbitrary: s)
  case Nil
  show ?case by simp
next
  case (Cons v us)
  from Cons.prems have a: "\<not> fst (flush_buffer pipe s v)"
    and b: "\<not> fst (flush_all pipe us (snd (snd (flush_buffer pipe s v))))"
    by (auto simp: flush_all_Cons simp del: flush_all.simps split: if_splits)
  show ?case
    using a
    by (auto simp: flush_all_Cons Cons.IH [OF b] flush_buffer_buffered flush_buffer_handed
          simp del: flush_all.simps)
qed

section \<open>The result of a successful flush\<close>

text \<open>
  C3, as the code has it. When the speaker has pending audio and the pipeline returns a
  text, \<open>_flush_buffer\<close> raises nothing and appends the trimmed text as the last segment
  of that speaker's transcript, whatever the trimmed text is; the segments of the other
  speakers stay as they are. There is no test for an empty text between \<open>.strip()\<close> and
  \<open>append_final_line\<close>.
\<close>

theorem flush_buffer_appends_trimmed:
  assumes "buffered s u \<noteq> []" and "pipe u (buffered s u) = Transcribed raw"
  shows "fst (flush_buffer pipe s u) = False \<and>
         segments (snd (snd (flush_buffer pipe s u))) u = segments s u @ [strip raw] \<and>
         (\<forall>u'. u' \<noteq> u \<longrightarrow> segments (snd (snd (flush_buffer pipe s u))) u' = segments s u')"
  using assms by (simp add: flush_buffer_raised flush_buffer_segments)

theorem flush_buffer_appends_trimmed_witness:
  "buffered (Session\<lparr>audio_buffers := [(7, [1])], user_transcripts := [(7, [''a''])]\<rparr>) 7 \<noteq> [] \<and>
   always (Transcribed '' hi  '') 7
     (buffered (Session\<lparr>audio_buffers := [(7, [1])], user_transcripts := [(7, [''a''])]\<rparr>) 7)
      = Transcribed '' hi  '' \<and>
   (8::int) \<noteq> 7 \<and>
   segments (snd (snd (flush_buffer (always (Transcribed '' hi  ''))
      (Session\<lparr>audio_buffers := [(7, [1])], user_transcripts := [(7, [''a''])]\<rparr>) 7))) 7
      = [''a'', ''hi'']"
  using flush_buffer_appends_trimmed
    [of "Session\<lparr>audio_buffers := [(7, [1])], user_transcripts := [(7, [''a''])]\<rparr>" 7
      "always (Transcribed '' hi  '')" "'' hi  ''"]
  by (simp add: Session_def dict_get_def strip_def is_space_def always_def)

text \<open>
  C3, as the claim has it, fails: a recording session holds one byte for speaker 7 and
  the pipeline returns a single space. The trimmed text is empty, and the speaker, who
  had no segment, has the empty segment afterwards.
\<close>

theorem flush_buffer_appends_empty_text:
  "strip '' '' = [] \<and>
   segments (Session\<lparr>is_recording := True, audio_buffers := [(7, [1])]\<rparr>) 7 = [] \<and>
   flush_buffer (always (Transcribed '' ''))
     (Session\<lparr>is_recording := True, audio_buffers := [(7, [1])]\<rparr>) 7 =
     (False, [(7, [1])],
      Session\<lparr>is_recording := True, audio_buffers := [(7, [])],
              user_transcripts := [(7, [[]])]\<rparr>) \<and>
   segments (Session\<lparr>is_recording := True, audio_buffers := [(7, [])],
                     user_transcripts := [(7, [[]])]\<rparr>) 7 = [[]]"
  by (simp add: flush_buffer_def strip_def is_space_def Session_def dict_get_def
        append_final_line_def always_def)

section \<open>Stopping a recording\<close>



text \<open>\<open>stop_recording\<close> in terms of its loop.\<close>

lemma stop_recording_unfold:
  "stop_recording pipe g m =
     (if fst (flush_all pipe (map fst (audio_buffers (fst (get_or_create_session g m))))
               ((fst (get_or_create_session g m))\<lparr>is_recording := False\<rparr>))
      then None
      else Some (get_combined_transcript (snd (snd
             (flush_all pipe (map fst (audio_buffers (fst (get_or_create_session g m))))
               ((fst (get_or_create_session g m))\<lparr>is_recording := False\<rparr>))))),
      map (Pair g) (fst (snd
             (flush_all pipe (map fst (audio_buffers (fst (get_or_create_session g m))))
               ((fst (get_or_create_session g m))\<lparr>is_recording := False\<rparr>)))),
      AList.update g (snd (snd
             (flush_all pipe (map fst (audio_buffers (fst (get_or_create_session g m))))
               ((fst (get_or_create_session g m))\<lparr>is_recording := False\<rparr>))))
        (snd (get_or_create_session g m)))"
  by (simp add: stop_recording_def Let_def split: prod.splits)

lemma handed_for_Pair:
  "handed_for g u (map (Pair g) h) = map snd (filter (\<lambda>p. fst p = u) h)"
  by (induction h) (auto simp: handed_for_def)

lemma speaker_lines_in_transcript:
  "map_of (user_transcripts s) u = Some ts \<Longrightarrow>
   set (speaker_lines (user_names s) (u, ts)) \<subseteq> set (transcript_lines s)"
proof -
  assume "map_of (user_transcripts s) u = Some ts"
  then have "(u, ts) \<in> set (user_transcripts s)" by (rule map_of_SomeD)
  then show ?thesis unfolding transcript_lines_def by auto
qed

lemma segments_in_transcript:
  "set (speaker_lines (user_names s) (u, segments s u)) \<subseteq> set (transcript_lines s)"
proof (cases "map_of (user_transcripts s) u")
  case None
  then show ?thesis by (simp add: dict_get_def speaker_lines_def)
next
  case (Some ts)
  then show ?thesis using speaker_lines_in_transcript [OF Some] by (simp add: dict_get_def)
qed

lemma buffered_empty_all:
  "(\<forall>u \<in> fst ` set (audio_buffers s). buffered s u = []) \<Longrightarrow>
   map_of (audio_buffers s) u = Some b \<Longrightarrow> b = []"
proof -
  assume a: "\<forall>u \<in> fst ` set (audio_buffers s). buffered s u = []"
    and b: "map_of (audio_buffers s) u = Some b"
  from b have "(u, b) \<in> set (audio_buffers s)" by (rule map_of_SomeD)
  then have "u \<in> fst ` set (audio_buffers s)" by (rule image_eqI [rotated]) simp
  with a have "buffered s u = []" by blast
  with b show "b = []" by (simp add: dict_get_def)
qed

text \<open>
  What \<open>stop_recording\<close> does when no write of a temporary file fails, for the session
  \<open>s\<close> that \<open>get_or_create_session\<close> hands to it.
\<close>

lemma stop_recording_effect:
  assumes s: "s = fst (get_or_create_session g m)"
    and ok: "\<forall>u. buffered s u \<noteq> [] \<longrightarrow> pipe u (buffered s u) \<noteq> PersistError"
  shows "\<exists>s' h. stop_recording pipe g m =
            (Some (get_combined_transcript s'), h, AList.update g s' (snd (get_or_create_session g m))) \<and>
          \<not> is_recording s' \<and> user_names s' = user_names s \<and>
          fst ` set (audio_buffers s') = fst ` set (audio_buffers s) \<and>
          (\<forall>u b. map_of (audio_buffers s') u = Some b \<longrightarrow> b = []) \<and>
          (\<forall>u. handed_for g u h = (if buffered s u \<noteq> [] then [buffered s u] else [])) \<and>
          (\<forall>u. segments s' u = segments s u @
                (if buffered s u \<noteq> [] then
                   (case pipe u (buffered s u) of Transcribed raw \<Rightarrow> [strip raw] | _ \<Rightarrow> [])
                 else []))"
proof -
  define s1 where "s1 = s\<lparr>is_recording := False\<rparr>"
  define r where "r = flush_all pipe (map fst (audio_buffers s)) s1"
  define s' where "s' = snd (snd r)"
  have b1: "buffered s1 u = buffered s u" for u by (simp add: s1_def)
  have t1: "segments s1 u = segments s u" for u by (simp add: s1_def)
  have keys1: "audio_buffers s1 = audio_buffers s" by (simp add: s1_def)
  have nr: "\<not> fst r"
    unfolding r_def using ok by (intro flush_all_not_raised) (simp add: b1)
  have key_iff: "u \<in> set (map fst (audio_buffers s))" if "buffered s u \<noteq> []" for u
    using buffered_nonempty_key [OF that] by simp
  have sr: "stop_recording pipe g m =
      (Some (get_combined_transcript s'), map (Pair g) (fst (snd r)),
       AList.update g s' (snd (get_or_create_session g m)))"
    using nr by (simp add: stop_recording_unfold s [symmetric] s1_def [symmetric]
        r_def [symmetric] s'_def [symmetric])
  have rec: "\<not> is_recording s'" and nm: "user_names s' = user_names s"
    using flush_all_other_fields [of pipe "map fst (audio_buffers s)" s1]
    by (simp_all add: s'_def r_def s1_def)
  have bufs: "buffered s' u = (if u \<in> set (map fst (audio_buffers s)) then [] else buffered s u)" for u
    using flush_all_buffered [of pipe "map fst (audio_buffers s)" s1 u] nr
    by (simp add: s'_def r_def b1)
  have keys: "fst ` set (audio_buffers s') = fst ` set (audio_buffers s)"
    using flush_all_keys [of pipe "map fst (audio_buffers s)" s1]
    by (simp add: s'_def r_def keys1)
  have empty: "\<forall>u b. map_of (audio_buffers s') u = Some b \<longrightarrow> b = []"
  proof (intro allI impI)
    fix u b assume "map_of (audio_buffers s') u = Some b"
    moreover have "\<forall>u \<in> fst ` set (audio_buffers s'). buffered s' u = []"
      by (simp add: keys bufs)
    ultimately show "b = []" by (rule buffered_empty_all [rotated])
  qed
  have hd: "handed_for g u (map (Pair g) (fst (snd r))) =
              (if buffered s u \<noteq> [] then [buffered s u] else [])" for u
    using flush_all_handed [of pipe "map fst (audio_buffers s)" s1 u] nr key_iff [of u]
    by (auto simp: handed_for_Pair r_def b1)
  have sg: "segments s' u = segments s u @
                (if buffered s u \<noteq> [] then
                   (case pipe u (buffered s u) of Transcribed raw \<Rightarrow> [strip raw] | _ \<Rightarrow> [])
                 else [])" for u
    using flush_all_segments [of pipe "map fst (audio_buffers s)" s1 u] nr key_iff [of u]
    by (auto simp: s'_def r_def b1 t1)
  show ?thesis
    using sr rec nm keys empty hd sg by blast
qed

lemma map_of_after_get_or_create:
  "map_of (AList.update g s' (snd (get_or_create_session g m))) g = Some s'"
  by (simp add: update_conv')



text \<open>The definitions that a concrete run unfolds.\<close>

lemmas run_defs = stop_recording_def get_or_create_session_def flush_buffer_def
  append_final_line_def dict_get_def always_def fails_for_def example_session_def
  strip_def is_space_def get_combined_transcript_def transcript_lines_def speaker_lines_def
  speaker_label_def str_int_def str_nat.simps digit_char_def nl_def Let_def handed_for_def



section \<open>Failures of conversion and transcription\<close>

lemma flush_buffer_pipeline_error:
  "buffered s u \<noteq> [] \<Longrightarrow> pipe u (buffered s u) = PipelineError \<Longrightarrow>
   flush_buffer pipe s u =
     (False, [(u, buffered s u)], s\<lparr>audio_buffers := AList.update u [] (audio_buffers s)\<rparr>)"
  by (simp add: flush_buffer_def)

text \<open>
  C4. Speaker \<open>u\<close> has pending audio and the conversion or the transcription of it fails
  (\<open>PipelineError\<close>); no write of a temporary file fails. Then \<open>_flush_buffer\<close> for \<open>u\<close>
  raises nothing, leaves the new empty buffer in place of the swapped-out bytes, and leaves
  the transcripts alone. \<open>stop_recording\<close> on the session returns a transcript all the
  same: \<open>u\<close> ends with an empty buffer and no new segment, while every speaker \<open>v\<close> whose
  pending audio the pipeline transcribed had that audio handed over, has the trimmed text
  as the last segment, and has the line blocks of these segments in the transcript.
\<close>

theorem pipeline_error_contained:
  assumes s: "s = fst (get_or_create_session g m)"
    and pending: "buffered s u \<noteq> []"
    and fails: "pipe u (buffered s u) = PipelineError"
    and others: "\<forall>v. buffered s v \<noteq> [] \<longrightarrow> pipe v (buffered s v) \<noteq> PersistError"
  shows "flush_buffer pipe s u =
           (False, [(u, buffered s u)], s\<lparr>audio_buffers := AList.update u [] (audio_buffers s)\<rparr>) \<and>
         (\<exists>t h m' s'.
            stop_recording pipe g m = (Some t, h, m') \<and>
            map_of m' g = Some s' \<and>
            map_of (audio_buffers s') u = Some [] \<and>
            segments s' u = segments s u \<and>
            t = get_combined_transcript s' \<and>
            (\<forall>v raw. buffered s v \<noteq> [] \<and> pipe v (buffered s v) = Transcribed raw \<longrightarrow>
               handed_for g v h = [buffered s v] \<and>
               segments s' v = segments s v @ [strip raw] \<and>
               set (speaker_lines (user_names s') (v, segments s v @ [strip raw]))
                 \<subseteq> set (transcript_lines s')))"
proof -
  from s others stop_recording_effect [where s=s and g=g and m=m and pipe=pipe]
  obtain s' h where
    sr: "stop_recording pipe g m =
          (Some (get_combined_transcript s'), h, AList.update g s' (snd (get_or_create_session g m)))"
    and keys: "fst ` set (audio_buffers s') = fst ` set (audio_buffers s)"
    and empty: "\<forall>u b. map_of (audio_buffers s') u = Some b \<longrightarrow> b = []"
    and hd: "\<forall>u. handed_for g u h = (if buffered s u \<noteq> [] then [buffered s u] else [])"
    and sg: "\<forall>u. segments s' u = segments s u @
                 (if buffered s u \<noteq> [] then
                    (case pipe u (buffered s u) of Transcribed raw \<Rightarrow> [strip raw] | _ \<Rightarrow> [])
                  else [])"
    by blast
  have "u \<in> fst ` set (audio_buffers s')"
    using buffered_nonempty_key [OF pending] keys by simp
  then obtain b where b: "map_of (audio_buffers s') u = Some b"
    by (cases "map_of (audio_buffers s') u") (auto simp: map_of_eq_None_iff)
  with empty have bu: "map_of (audio_buffers s') u = Some []" by blast
  have su: "segments s' u = segments s u"
    using sg pending fails by simp
  have ok: "handed_for g v h = [buffered s v] \<and>
            segments s' v = segments s v @ [strip raw] \<and>
            set (speaker_lines (user_names s') (v, segments s v @ [strip raw]))
              \<subseteq> set (transcript_lines s')"
    if "buffered s v \<noteq> [] \<and> pipe v (buffered s v) = Transcribed raw" for v raw
  proof -
    have a: "handed_for g v h = [buffered s v]" using hd that by simp
    have c: "segments s' v = segments s v @ [strip raw]" using sg that by simp
    show ?thesis using a c segments_in_transcript [of s' v] by simp
  qed
  show ?thesis
    using flush_buffer_pipeline_error [where s=s and u=u and pipe=pipe, OF pending fails] sr bu su ok
      map_of_after_get_or_create [of g s' m]
    by blast
qed

theorem pipeline_error_contained_witness:
  "example_session = fst (get_or_create_session 1 [(1, example_session)]) \<and>
   buffered example_session 2 \<noteq> [] \<and>
   fails_for 2 '' ok '' 2 (buffered example_session 2) = PipelineError \<and>
   flush_buffer (fails_for 2 '' ok '') example_session 2 =
     (False, [(2, [5])],
      example_session\<lparr>audio_buffers := AList.update 2 [] (audio_buffers example_session)\<rparr>) \<and>
   stop_recording (fails_for 2 '' ok '') 1 [(1, example_session)] =
     (Some ''User 3:\<newline>a\<newline>\<newline>User 3:\<newline>ok\<newline>'',
      [(1, 2, [5]), (1, 3, [6, 7])],
      [(1, \<lparr>is_recording = False, user_transcripts = [(3, [''a'', ''ok''])],
             user_names = [(2, ''Ann'')], audio_buffers = [(2, []), (3, []), (4, [])]\<rparr>)])"
proof -
  have h1: "example_session = fst (get_or_create_session 1 [(1, example_session)])"
    by (simp add: get_or_create_session_def)
  have h2: "buffered example_session 2 \<noteq> []"
    by (simp add: example_session_def dict_get_def)
  have h3: "fails_for 2 '' ok '' 2 (buffered example_session 2) = PipelineError"
    by (simp add: fails_for_def)
  have h4: "\<forall>v. buffered example_session v \<noteq> [] \<longrightarrow>
        fails_for 2 '' ok '' v (buffered example_session v) \<noteq> PersistError"
    by (simp add: fails_for_def)
  note h5 = pipeline_error_contained [where s = example_session and g = 1
      and m = "[(1, example_session)]" and u = 2 and pipe = "fails_for 2 '' ok ''",
      OF h1 h2 h3 h4]
  have h6: "buffered example_session 2 = [5]"
    by (simp add: example_session_def dict_get_def)
  have h7: "stop_recording (fails_for 2 '' ok '') 1 [(1, example_session)] =
     (Some ''User 3:\<newline>a\<newline>\<newline>User 3:\<newline>ok\<newline>'',
      [(1, 2, [5]), (1, 3, [6, 7])],
      [(1, \<lparr>is_recording = False, user_transcripts = [(3, [''a'', ''ok''])],
             user_names = [(2, ''Ann'')], audio_buffers = [(2, []), (3, []), (4, [])]\<rparr>)])"
    by (simp add: run_defs)
  from h1 h2 h3 h7 conjunct1 [OF h5] show ?thesis by (simp add: h6)
qed

section \<open>Stopping with nothing to flush\<close>

lemma flush_all_nothing:
  "(\<forall>u \<in> set us. buffered s u = []) \<Longrightarrow> flush_all pipe us s = (False, [], s)"
  by (induction us) (simp_all add: flush_buffer_empty)

lemma transcript_lines_no_segments:
  "(\<forall>p \<in> set (user_transcripts s). snd p = []) \<Longrightarrow> transcript_lines s = []"
  by (auto simp: transcript_lines_def speaker_lines_def)

text \<open>
  C9. \<open>stop_recording\<close> for a guild without a session stores a new session (not
  recording), hands nothing to the pipeline and returns the empty string. For a session
  with no pending audio (no buffer, or only empty ones) and no transcript segment it
  clears the recording flag, changes nothing else, hands nothing to the pipeline and
  returns the empty string. Both hold for every pipeline, also a failing one, as none is
  called.
\<close>

theorem stop_recording_nothing_pending:
  "(map_of m g = None \<longrightarrow>
      stop_recording pipe g m = (Some [], [], AList.update g Session m) \<and>
      is_recording Session = False) \<and>
   (map_of m g = Some s \<and> (\<forall>u. buffered s u = []) \<and>
    (\<forall>p \<in> set (user_transcripts s). snd p = []) \<longrightarrow>
      stop_recording pipe g m = (Some [], [], AList.update g (s\<lparr>is_recording := False\<rparr>) m))"
proof (intro conjI impI)
  assume "map_of m g = None"
  then show "stop_recording pipe g m = (Some [], [], AList.update g Session m)"
    by (simp add: stop_recording_def get_or_create_session_def Session_def
          get_combined_transcript_def transcript_lines_def)
next
  show "is_recording Session = False" by (simp add: Session_def)
next
  assume a: "map_of m g = Some s \<and> (\<forall>u. buffered s u = []) \<and>
    (\<forall>p \<in> set (user_transcripts s). snd p = [])"
  then have "flush_all pipe (map fst (audio_buffers s)) (s\<lparr>is_recording := False\<rparr>) =
               (False, [], s\<lparr>is_recording := False\<rparr>)"
    by (intro flush_all_nothing) simp
  moreover have "transcript_lines (s\<lparr>is_recording := False\<rparr>) = []"
    using a by (intro transcript_lines_no_segments) simp
  ultimately show
    "stop_recording pipe g m = (Some [], [], AList.update g (s\<lparr>is_recording := False\<rparr>) m)"
    using a by (simp add: stop_recording_def get_or_create_session_def
          get_combined_transcript_def)
qed

theorem stop_recording_nothing_pending_witness:
  "map_of ([] :: sessions) 1 = None \<and>
   stop_recording (always PersistError) 1 [] = (Some [], [], [(1, Session)]) \<and>
   map_of [(1, Session\<lparr>is_recording := True, audio_buffers := [(4, [])]\<rparr>)] 1
     = Some (Session\<lparr>is_recording := True, audio_buffers := [(4, [])]\<rparr>) \<and>
   (\<forall>u. buffered (Session\<lparr>is_recording := True, audio_buffers := [(4, [])]\<rparr>) u = []) \<and>
   user_transcripts (Session\<lparr>is_recording := True, audio_buffers := [(4, [])]\<rparr>) = [] \<and>
   stop_recording (always PersistError) 1
       [(1, Session\<lparr>is_recording := True, audio_buffers := [(4, [])]\<rparr>)] =
     (Some [], [], [(1, Session\<lparr>is_recording := False, audio_buffers := [(4, [])]\<rparr>)])"
  using stop_recording_nothing_pending [where m = "[]" and g = 1 and pipe = "always PersistError"]
    stop_recording_nothing_pending
      [where m = "[(1, Session\<lparr>is_recording := True, audio_buffers := [(4, [])]\<rparr>)]" and g = 1
        and s = "Session\<lparr>is_recording := True, audio_buffers := [(4, [])]\<rparr>"
        and pipe = "always PersistError"]
  by (simp add: Session_def dict_get_def)

section \<open>The flush loops\<close>



text \<open>
  Whatever the pipeline answers, a flush moves bytes from the buffer to the pipeline:
  the blocks handed over for a speaker, followed by what is left in the speaker's buffer,
  are what the buffer held before.
\<close>

lemma flush_buffer_conserves:
  "concat (map snd (filter (\<lambda>p. fst p = u') (fst (snd (flush_buffer pipe s u))))) @
     buffered (snd (snd (flush_buffer pipe s u))) u' = buffered s u'"
  by (simp add: flush_buffer_handed flush_buffer_buffered)

lemma flush_all_conserves:
  "concat (map snd (filter (\<lambda>p. fst p = u') (fst (snd (flush_all pipe us s))))) @
     buffered (snd (snd (flush_all pipe us s))) u' = buffered s u'"
proof (induction us arbitrary: s)
  case Nil
  show ?case by simp
next
  case (Cons u us)
  show ?case
  proof (cases "fst (flush_buffer pipe s u)")
    case True
    then show ?thesis
      by (simp add: flush_all_Cons flush_buffer_conserves del: flush_all.simps)
  next
    case False
    then show ?thesis
      using Cons.IH [of "snd (snd (flush_buffer pipe s u))"]
        flush_buffer_conserves [of u' pipe s u]
      by (simp add: flush_all_Cons del: flush_all.simps)
  qed
qed

lemma flusher_users_Cons:
  "flusher_users pipe (u # us) s =
     (if buffered s u \<noteq> [] then
        (if fst (flush_buffer pipe s u) then flush_buffer pipe s u
         else (fst (flusher_users pipe us (snd (snd (flush_buffer pipe s u)))),
               fst (snd (flush_buffer pipe s u)) @
                 fst (snd (flusher_users pipe us (snd (snd (flush_buffer pipe s u))))),
               snd (snd (flusher_users pipe us (snd (snd (flush_buffer pipe s u)))))))
      else flusher_users pipe us s)"
  by (cases "flush_buffer pipe s u";
      cases "flusher_users pipe us (snd (snd (flush_buffer pipe s u)))") auto

lemma flusher_users_conserves:
  "concat (map snd (filter (\<lambda>p. fst p = u') (fst (snd (flusher_users pipe us s))))) @
     buffered (snd (snd (flusher_users pipe us s))) u' = buffered s u'"
proof (induction us arbitrary: s)
  case Nil
  show ?case by simp
next
  case (Cons u us)
  show ?case
  proof (cases "buffered s u \<noteq> [] \<and> fst (flush_buffer pipe s u)")
    case True
    then show ?thesis
      by (simp add: flusher_users_Cons flush_buffer_conserves del: flusher_users.simps)
  next
    case False
    then show ?thesis
      using Cons.IH [of "snd (snd (flush_buffer pipe s u))"] Cons.IH [of s]
        flush_buffer_conserves [of u' pipe s u]
      by (auto simp: flusher_users_Cons simp del: flusher_users.simps)
  qed
qed

lemma flusher_users_keys:
  "fst ` set (audio_buffers (snd (snd (flusher_users pipe us s)))) = fst ` set (audio_buffers s)"
proof (induction us arbitrary: s)
  case Nil
  show ?case by simp
next
  case (Cons u us)
  show ?case
    by (simp add: flusher_users_Cons Cons.IH flush_buffer_keys del: flusher_users.simps)
qed

text \<open>One pass of the background flusher over the sessions.\<close>

lemma flusher_sessions_Cons:
  "flusher_sessions pipes ((g, s) # rest) =
     (if is_recording s then
        (if fst (flusher_users (pipes g) (map fst (audio_buffers s)) s)
         then (True, map (Pair g) (fst (snd (flusher_users (pipes g) (map fst (audio_buffers s)) s))),
               (g, snd (snd (flusher_users (pipes g) (map fst (audio_buffers s)) s))) # rest)
         else (fst (flusher_sessions pipes rest),
               map (Pair g) (fst (snd (flusher_users (pipes g) (map fst (audio_buffers s)) s))) @
                 fst (snd (flusher_sessions pipes rest)),
               (g, snd (snd (flusher_users (pipes g) (map fst (audio_buffers s)) s))) #
                 snd (snd (flusher_sessions pipes rest))))
      else (fst (flusher_sessions pipes rest), fst (snd (flusher_sessions pipes rest)),
            (g, s) # snd (snd (flusher_sessions pipes rest))))"
  by (cases "flusher_users (pipes g) (map fst (audio_buffers s)) s";
      cases "flusher_sessions pipes rest") auto

lemma handed_for_append:
  "handed_for g u (h @ h') = handed_for g u h @ handed_for g u h'"
  by (simp add: handed_for_def)

lemma handed_for_Pair_other:
  "g' \<noteq> g \<Longrightarrow> handed_for g u (map (Pair g') h) = []"
  by (induction h) (auto simp: handed_for_def)

lemma handed_for_Nil: "handed_for g u [] = []"
  by (simp add: handed_for_def)

lemma flusher_sessions_keys:
  "map fst (snd (snd (flusher_sessions pipes m))) = map fst m"
proof (induction m)
  case Nil
  show ?case by simp
next
  case (Cons p m)
  obtain g s where p: "p = (g, s)" by (cases p)
  show ?case
    unfolding p by (simp add: flusher_sessions_Cons Cons.IH del: flusher_sessions.simps)
qed

lemma flusher_sessions_handed_absent:
  "g \<notin> fst ` set m \<Longrightarrow> handed_for g u (fst (snd (flusher_sessions pipes m))) = []"
proof (induction m)
  case Nil
  show ?case by (simp add: handed_for_Nil)
next
  case (Cons p m)
  obtain g' s where p: "p = (g', s)" by (cases p)
  from Cons.prems have ne: "g' \<noteq> g" and "g \<notin> fst ` set m" by (auto simp: p)
  then show ?case
    unfolding p
    by (simp add: flusher_sessions_Cons Cons.IH handed_for_append handed_for_Pair_other
          handed_for_Nil del: flusher_sessions.simps)
qed

lemma flusher_sessions_conserves:
  "distinct (map fst m) \<Longrightarrow>
   concat (handed_for g u (fst (snd (flusher_sessions pipes m)))) @
     pending (snd (snd (flusher_sessions pipes m))) g u = pending m g u"
proof (induction m)
  case Nil
  show ?case by (simp add: handed_for_Nil)
next
  case (Cons p m)
  obtain g' s where p: "p = (g', s)" by (cases p)
  from Cons.prems have d: "distinct (map fst m)" and notin: "g' \<notin> fst ` set m"
    by (auto simp: p)
  show ?case
  proof (cases "g' = g")
    case True
    have "handed_for g u (fst (snd (flusher_sessions pipes m))) = []"
      using notin True by (simp add: flusher_sessions_handed_absent)
    then show ?thesis
      unfolding p using True
        flusher_users_conserves [of u "pipes g" "map fst (audio_buffers s)" s]
      by (simp add: flusher_sessions_Cons pending_def handed_for_append handed_for_Pair
            handed_for_Nil del: flusher_sessions.simps)
  next
    case False
    then show ?thesis
      unfolding p using Cons.IH [OF d]
      by (simp add: flusher_sessions_Cons pending_def handed_for_append handed_for_Pair_other
            handed_for_Nil del: flusher_sessions.simps)
  qed
qed

lemma flusher_sessions_has_buffer:
  "(buffer_of (snd (snd (flusher_sessions pipes m))) g u = None) = (buffer_of m g u = None)"
proof (induction m)
  case Nil
  show ?case by simp
next
  case (Cons p m)
  obtain g' s where p: "p = (g', s)" by (cases p)
  show ?case
    unfolding p using Cons.IH
      flusher_users_keys [of "pipes g'" "map fst (audio_buffers s)" s]
    by (simp add: flusher_sessions_Cons buffer_of_def map_of_eq_None_iff
          del: flusher_sessions.simps)
qed

section \<open>One call at a time\<close>

lemma distinct_get_or_create:
  "distinct (map fst m) \<Longrightarrow> distinct (map fst (snd (get_or_create_session g m)))"
  by (simp add: get_or_create_session_def distinct_update split: option.splits)

lemma run_Cons_proj:
  "fst (run (c # cs) m) = fst (exec c m) @ fst (run cs (snd (exec c m)))"
  "snd (run (c # cs) m) = snd (run cs (snd (exec c m)))"
  by (simp_all split: prod.splits)

lemma map_of_get_or_create_other:
  "g' \<noteq> g \<Longrightarrow> map_of (snd (get_or_create_session g m)) g' = map_of m g'"
  by (simp add: get_or_create_session_def update_conv' split: option.splits)

lemma flush_session_unfold:
  "flush_session pipe g u m =
     (case map_of m g of
        None \<Rightarrow> ([], m)
      | Some s \<Rightarrow> (map (Pair g) (fst (snd (flush_buffer pipe s u))),
                   AList.update g (snd (snd (flush_buffer pipe s u))) m))"
  by (simp add: flush_session_def split: option.splits prod.splits)

lemma exec_distinct:
  "distinct (map fst m) \<Longrightarrow> distinct (map fst (snd (exec c m)))"
proof (cases c)
  case (Stop g pipe)
  assume "distinct (map fst m)"
  then show ?thesis
    by (simp add: Stop stop_recording_unfold distinct_update distinct_get_or_create)
next
  case (Tick pipes)
  assume "distinct (map fst m)"
  then show ?thesis by (simp add: Tick flusher_sessions_keys)
next
  case (Flush g u pipe)
  assume "distinct (map fst m)"
  then show ?thesis
    by (simp add: Flush flush_session_unfold distinct_update split: option.splits)
qed (simp_all add: start_recording_def process_audio_chunk_def set_user_name_def
      remove_session_def distinct_update distinct_delete distinct_get_or_create Let_def
      case_prod_beta)

lemma run_distinct:
  "distinct (map fst m) \<Longrightarrow> distinct (map fst (snd (run cs m)))"
proof (induction cs arbitrary: m)
  case Nil
  then show ?case by simp
next
  case (Cons c cs)
  from Cons.IH [OF exec_distinct [OF Cons.prems, of c]] show ?case
    by (simp only: run_Cons_proj)
qed

lemma pending_update:
  "pending (AList.update g' s m) g u = (if g' = g then buffered s u else pending m g u)"
  by (simp add: pending_def update_conv')

text \<open>The pending audio of speaker \<open>u\<close> in guild \<open>g\<close> across each call.\<close>

lemma pending_start:
  "pending (snd (start_recording g' m)) g u = pending m g u"
  by (auto simp: start_recording_def get_or_create_session_def pending_def update_conv'
        Session_def dict_get_def Let_def split: option.splits)

lemma pending_chunk:
  "pending (process_audio_chunk g' u' d m) g u =
     pending m g u @ (if g' = g \<and> u' = u \<and> recording m g then d else [])"
  by (auto simp: process_audio_chunk_def get_or_create_session_def pending_def recording_def
        update_conv' Session_def dict_get_def split: option.splits)

lemma pending_set_name:
  "pending (set_user_name g' u' n m) g u = pending m g u"
  by (auto simp: set_user_name_def get_or_create_session_def pending_def update_conv'
        Session_def dict_get_def split: option.splits)

lemma pending_remove_other:
  "g' \<noteq> g \<Longrightarrow> pending (remove_session g' m) g u = pending m g u"
  by (simp add: remove_session_delete pending_def)

lemma pending_fresh:
  "pending m g u = buffered (fst (get_or_create_session g m)) u"
  by (simp add: pending_def get_or_create_session_def Session_def dict_get_def
        split: option.splits)

lemma pending_get_or_create:
  "pending (snd (get_or_create_session g' m)) g u = pending m g u"
  by (auto simp: get_or_create_session_def pending_def update_conv' Session_def dict_get_def
        split: option.splits)

lemma stop_conserves:
  "concat (handed_for g u (fst (snd (stop_recording pipe g' m)))) @
     pending (snd (snd (stop_recording pipe g' m))) g u = pending m g u"
proof (cases "g' = g")
  case True
  show ?thesis
    using flush_all_conserves [of u pipe "map fst (audio_buffers (fst (get_or_create_session g m)))"
        "(fst (get_or_create_session g m))\<lparr>is_recording := False\<rparr>"]
    by (simp add: True stop_recording_unfold handed_for_Pair pending_fresh [of m]
          pending_update)
next
  case False
  then show ?thesis
    by (simp add: stop_recording_unfold handed_for_Pair_other pending_update
          pending_get_or_create)
qed

lemma flush_session_conserves:
  "concat (handed_for g u (fst (flush_session pipe g' u' m))) @
     pending (snd (flush_session pipe g' u' m)) g u = pending m g u"
proof (cases "map_of m g'")
  case None
  then show ?thesis by (simp add: flush_session_unfold handed_for_Nil)
next
  case (Some s)
  show ?thesis
  proof (cases "g' = g")
    case True
    show ?thesis
      using flush_buffer_conserves [of u pipe s u'] Some
      by (simp add: True flush_session_unfold handed_for_Pair pending_def update_conv')
  next
    case False
    then show ?thesis
      using Some
      by (simp add: flush_session_unfold handed_for_Pair_other pending_def update_conv')
  qed
qed

lemma exec_conserves:
  assumes "c \<noteq> Remove g" and "distinct (map fst m)"
  shows "concat (handed_for g u (fst (exec c m))) @ pending (snd (exec c m)) g u =
           pending m g u @ concat (accepted g u [c] m)"
proof (cases c)
  case (Start g')
  then show ?thesis by (simp add: pending_start handed_for_Nil)
next
  case (Stop g' pipe)
  then show ?thesis by (simp add: stop_conserves)
next
  case (Chunk g' u' d)
  then show ?thesis by (auto simp: pending_chunk handed_for_Nil)
next
  case (SetName g' u' n)
  then show ?thesis by (simp add: pending_set_name handed_for_Nil)
next
  case (Remove g')
  with assms(1) have "g' \<noteq> g" by simp
  then show ?thesis by (simp add: Remove pending_remove_other handed_for_Nil)
next
  case (Tick pipes)
  then show ?thesis by (simp add: flusher_sessions_conserves [OF assms(2)])
next
  case (Flush g' u' pipe)
  then show ?thesis by (simp add: flush_session_conserves)
qed

section \<open>Bytes from ingestion to the pipeline\<close>



lemma accepted_Cons:
  "accepted g u (c # cs) m = accepted g u [c] m @ accepted g u cs (snd (exec c m))"
  by simp

lemma run_conserves:
  "Remove g \<notin> set cs \<Longrightarrow> distinct (map fst m) \<Longrightarrow>
   concat (handed_for g u (fst (run cs m))) @ pending (snd (run cs m)) g u =
     pending m g u @ concat (accepted g u cs m)"
proof (induction cs arbitrary: m)
  case Nil
  show ?case by (simp add: handed_for_Nil)
next
  case (Cons c cs)
  let ?m1 = "snd (exec c m)"
  from Cons.prems have c: "c \<noteq> Remove g" and cs: "Remove g \<notin> set cs" by auto
  have d1: "distinct (map fst ?m1)" using Cons.prems(2) by (rule exec_distinct)
  have "concat (handed_for g u (fst (run (c # cs) m))) @ pending (snd (run (c # cs) m)) g u =
        concat (handed_for g u (fst (exec c m))) @
          (concat (handed_for g u (fst (run cs ?m1))) @ pending (snd (run cs ?m1)) g u)"
    by (simp only: run_Cons_proj handed_for_append concat_append append_assoc)
  also have "\<dots> = concat (handed_for g u (fst (exec c m))) @
                    (pending ?m1 g u @ concat (accepted g u cs ?m1))"
    by (simp only: Cons.IH [OF cs d1])
  also have "\<dots> = (pending m g u @ concat (accepted g u [c] m)) @ concat (accepted g u cs ?m1)"
    using exec_conserves [OF c Cons.prems(2), of u] by (simp only: append_assoc [symmetric])
  also have "\<dots> = pending m g u @ concat (accepted g u (c # cs) m)"
    by (simp only: accepted_Cons [of g u c cs m] concat_append append_assoc)
  finally show ?case .
qed

lemma run_snoc:
  "snd (run (cs @ [c]) m) = snd (exec c (snd (run cs m)))"
proof (induction cs arbitrary: m)
  case Nil
  show ?case by (simp split: prod.splits)
next
  case (Cons a cs)
  show ?case by (simp only: append_Cons run_Cons_proj Cons.IH)
qed

lemma pending_after_stop:
  assumes "\<forall>v d. pipe v d \<noteq> PersistError"
  shows "pending (snd (snd (stop_recording pipe g m))) g u = []"
proof -
  from assms stop_recording_effect [where s = "fst (get_or_create_session g m)" and g = g
      and m = m and pipe = pipe]
  obtain s' h where
    sr: "stop_recording pipe g m =
          (Some (get_combined_transcript s'), h, AList.update g s' (snd (get_or_create_session g m)))"
    and empty: "\<forall>u b. map_of (audio_buffers s') u = Some b \<longrightarrow> b = []"
    by blast
  have "buffered s' u = []"
    using empty by (cases "map_of (audio_buffers s') u") (auto simp: dict_get_def)
  then show ?thesis by (simp add: sr pending_update)
qed

text \<open>
  C1. Calls of any kind reach a new manager one after the other, none of them
  \<open>remove_session\<close> for guild \<open>g\<close>. For every speaker \<open>u\<close> of \<open>g\<close>, the blocks handed to the
  pipeline, in flush order, followed by the bytes that no flush has taken out of the
  speaker's buffer yet, are the chunks that \<open>process_audio_chunk\<close> accepted, in call
  order: no byte is lost, reordered or duplicated. Once the buffer is drained the handed
  blocks alone are the accepted chunks: at every point where the buffer is empty, and
  after a \<open>stop_recording\<close> whose temporary-file writes succeed. The answers of the
  pipeline play no part.
\<close>

theorem handed_and_pending_are_ingested:
  assumes "Remove g \<notin> set cs"
  shows "concat (handed_for g u (fst (run cs []))) @ pending (snd (run cs [])) g u =
           concat (accepted g u cs []) \<and>
         (pending (snd (run cs [])) g u = [] \<longrightarrow>
            concat (handed_for g u (fst (run cs []))) = concat (accepted g u cs [])) \<and>
         ((\<forall>v d. pipe v d \<noteq> PersistError) \<longrightarrow>
            concat (handed_for g u (fst (run (cs @ [Stop g pipe]) []))) =
              concat (accepted g u (cs @ [Stop g pipe]) []))"
proof -
  have a: "concat (handed_for g u (fst (run cs []))) @ pending (snd (run cs [])) g u =
           concat (accepted g u cs [])"
    using run_conserves [OF assms, of "[]" u] by (simp add: pending_def)
  have r: "Remove g \<notin> set (cs @ [Stop g pipe])" using assms by simp
  have b: "concat (handed_for g u (fst (run (cs @ [Stop g pipe]) []))) @
             pending (snd (run (cs @ [Stop g pipe]) [])) g u =
           concat (accepted g u (cs @ [Stop g pipe]) [])"
    using run_conserves [OF r, of "[]" u] by (simp add: pending_def)
  have c: "pending (snd (run (cs @ [Stop g pipe]) [])) g u = []"
    if "\<forall>v d. pipe v d \<noteq> PersistError"
    using pending_after_stop [OF that] by (simp add: run_snoc)
  show ?thesis using a b c by auto
qed


text \<open>The definitions that a concrete sequence of calls unfolds.\<close>

lemmas trace_defs = run_defs start_recording_def process_audio_chunk_def set_user_name_def
  remove_session_def flush_session_def recording_def pending_def Session_def buffer_of_def

theorem handed_and_pending_are_ingested_witness:
  "Remove 1 \<notin> set [Start 1, Chunk 1 2 [5], Flush 1 2 (always PipelineError),
                     Chunk 1 2 [6, 7], Chunk 1 3 [9]] \<and>
   concat (handed_for 1 2 (fst (run [Start 1, Chunk 1 2 [5], Flush 1 2 (always PipelineError),
                     Chunk 1 2 [6, 7], Chunk 1 3 [9]] []))) = [5] \<and>
   pending (snd (run [Start 1, Chunk 1 2 [5], Flush 1 2 (always PipelineError),
                     Chunk 1 2 [6, 7], Chunk 1 3 [9]] [])) 1 2 = [6, 7] \<and>
   concat (accepted 1 2 [Start 1, Chunk 1 2 [5], Flush 1 2 (always PipelineError),
                     Chunk 1 2 [6, 7], Chunk 1 3 [9]] []) = [5, 6, 7] \<and>
   (\<forall>v d. always (Transcribed ''x'') v d \<noteq> PersistError) \<and>
   concat (handed_for 1 2 (fst (run ([Start 1, Chunk 1 2 [5], Flush 1 2 (always PipelineError),
                     Chunk 1 2 [6, 7], Chunk 1 3 [9]] @ [Stop 1 (always (Transcribed ''x''))]) [])))
     = [5, 6, 7]"
proof -
  have h1: "Remove 1 \<notin> set [Start 1, Chunk 1 2 [5], Flush 1 2 (always PipelineError),
                     Chunk 1 2 [6, 7], Chunk 1 3 [9]]"
    by simp
  have h2: "\<forall>v d. always (Transcribed ''x'') v d \<noteq> PersistError"
    by (simp add: always_def)
  have h3: "concat (accepted 1 2 [Start 1, Chunk 1 2 [5], Flush 1 2 (always PipelineError),
                     Chunk 1 2 [6, 7], Chunk 1 3 [9]] []) = [5, 6, 7]"
    by (simp add: trace_defs)
  have h4: "pending (snd (run [Start 1, Chunk 1 2 [5], Flush 1 2 (always PipelineError),
                     Chunk 1 2 [6, 7], Chunk 1 3 [9]] [])) 1 2 = [6, 7]"
    by (simp add: trace_defs)
  have h5: "concat (accepted 1 2 ([Start 1, Chunk 1 2 [5], Flush 1 2 (always PipelineError),
                     Chunk 1 2 [6, 7], Chunk 1 3 [9]] @ [Stop 1 (always (Transcribed ''x''))]) [])
              = [5, 6, 7]"
    by (simp add: trace_defs)
  note t = handed_and_pending_are_ingested [where g = 1 and u = 2
      and pipe = "always (Transcribed ''x'')", OF h1]
  from t h2 h3 h4 h5 h1 show ?thesis by simp
qed

section \<open>Lazy creation of buffers\<close>



text \<open>Which calls can give a speaker a buffer.\<close>

lemma buffer_of_key:
  "buffer_of m g u \<noteq> None \<longleftrightarrow> (\<exists>s. map_of m g = Some s \<and> u \<in> fst ` set (audio_buffers s))"
proof (cases "map_of m g")
  case None
  then show ?thesis by (simp add: buffer_of_def)
next
  case (Some s)
  then show ?thesis
    using map_of_eq_None_iff [of "audio_buffers s" u] by (simp add: buffer_of_def)
qed

lemma buffer_of_start:
  "buffer_of (snd (start_recording g' m)) g u = buffer_of m g u"
  by (auto simp: start_recording_def get_or_create_session_def buffer_of_def update_conv'
        Session_def Let_def split: option.splits)

lemma buffer_of_chunk:
  "buffer_of (process_audio_chunk g' u' d m) g u \<noteq> None \<Longrightarrow>
   buffer_of m g u \<noteq> None \<or> (g' = g \<and> u' = u \<and> recording m g)"
  by (auto simp: process_audio_chunk_def get_or_create_session_def buffer_of_def recording_def
        update_conv' Session_def split: option.splits if_splits)

lemma buffer_of_set_name:
  "buffer_of (set_user_name g' u' n m) g u = buffer_of m g u"
  by (auto simp: set_user_name_def get_or_create_session_def buffer_of_def update_conv'
        Session_def split: option.splits)

lemma buffer_of_remove:
  "buffer_of (remove_session g' m) g u = (if g' = g then None else buffer_of m g u)"
  by (simp add: remove_session_delete buffer_of_def delete_conv')

lemma buffer_of_get_or_create:
  "buffer_of (snd (get_or_create_session g' m)) g u = buffer_of m g u"
  by (auto simp: get_or_create_session_def buffer_of_def update_conv' Session_def
        split: option.splits)

lemma buffer_of_update:
  "buffer_of (AList.update g' s m) g u =
     (if g' = g then map_of (audio_buffers s) u else buffer_of m g u)"
  by (simp add: buffer_of_def update_conv')

lemma buffer_of_fresh:
  "buffer_of m g u = map_of (audio_buffers (fst (get_or_create_session g m))) u"
  by (simp add: buffer_of_def get_or_create_session_def Session_def split: option.splits)

lemma buffer_of_stop:
  "(buffer_of (snd (snd (stop_recording pipe g' m))) g u = None) = (buffer_of m g u = None)"
proof (cases "g' = g")
  case True
  show ?thesis
    using flush_all_keys [of pipe "map fst (audio_buffers (fst (get_or_create_session g m)))"
        "(fst (get_or_create_session g m))\<lparr>is_recording := False\<rparr>"]
    by (simp add: True stop_recording_unfold buffer_of_update buffer_of_fresh [of m]
          map_of_eq_None_iff)
next
  case False
  then show ?thesis
    by (simp add: stop_recording_unfold buffer_of_update buffer_of_get_or_create)
qed

lemma buffer_of_flush_session:
  "(buffer_of (snd (flush_session pipe g' u' m)) g u = None) = (buffer_of m g u = None)"
proof (cases "map_of m g'")
  case None
  then show ?thesis by (simp add: flush_session_unfold)
next
  case (Some s)
  show ?thesis
  proof (cases "g' = g")
    case True
    show ?thesis
      using Some flush_buffer_keys [of pipe s u']
      by (simp add: True flush_session_unfold buffer_of_update map_of_eq_None_iff)
        (simp add: buffer_of_def map_of_eq_None_iff)
  next
    case False
    then show ?thesis using Some by (simp add: flush_session_unfold buffer_of_update)
  qed
qed

lemma exec_new_buffer:
  assumes "buffer_of (snd (exec c m)) g u \<noteq> None"
  shows "buffer_of m g u \<noteq> None \<or> (\<exists>d. c = Chunk g u d \<and> recording m g)"
proof (cases c)
  case (Start g')
  with assms show ?thesis by (simp add: buffer_of_start)
next
  case (Stop g' pipe)
  with assms show ?thesis by (simp add: buffer_of_stop)
next
  case (Chunk g' u' d)
  with assms buffer_of_chunk [of g' u' d m g u] show ?thesis by auto
next
  case (SetName g' u' n)
  with assms show ?thesis by (simp add: buffer_of_set_name)
next
  case (Remove g')
  with assms show ?thesis by (simp add: buffer_of_remove split: if_splits)
next
  case (Tick pipes)
  with assms show ?thesis by (simp add: flusher_sessions_has_buffer)
next
  case (Flush g' u' pipe)
  with assms show ?thesis by (simp add: buffer_of_flush_session)
qed

lemma accepted_single:
  "accepted g u [c] m \<noteq> [] \<longleftrightarrow> (\<exists>d. c = Chunk g u d \<and> recording m g)"
  by (cases c) auto

lemma run_new_buffer:
  "buffer_of (snd (run cs m)) g u \<noteq> None \<Longrightarrow>
   buffer_of m g u \<noteq> None \<or> accepted g u cs m \<noteq> []"
proof (induction cs arbitrary: m)
  case Nil
  then show ?case by simp
next
  case (Cons c cs)
  from Cons.prems have "buffer_of (snd (run cs (snd (exec c m)))) g u \<noteq> None"
    unfolding run_Cons_proj .
  from Cons.IH [OF this]
  have "buffer_of (snd (exec c m)) g u \<noteq> None \<or> accepted g u cs (snd (exec c m)) \<noteq> []" .
  then show ?case
  proof
    assume "buffer_of (snd (exec c m)) g u \<noteq> None"
    from exec_new_buffer [OF this] show ?thesis
      using accepted_single [of g u c m] by (auto simp only: accepted_Cons [of g u c cs m])
  next
    assume "accepted g u cs (snd (exec c m)) \<noteq> []"
    then show ?thesis by (simp only: accepted_Cons [of g u c cs m]) simp
  qed
qed

text \<open>
  C8. One call: if speaker \<open>u\<close> has a buffer in guild \<open>g\<close> after a call (a public method,
  a pass of the flusher or a single flush), then \<open>u\<close> had one before, or the call is a
  \<open>process_audio_chunk\<close> for \<open>u\<close> in \<open>g\<close> made while the session was recording. Any
  sequence of calls on a new manager: a speaker id is a key of a session's
  \<open>audio_buffers\<close> only if the sequence has such an accepted chunk for that speaker.
\<close>

theorem buffers_only_from_accepted_chunks:
  "(buffer_of (snd (exec c m)) g u \<noteq> None \<longrightarrow>
      buffer_of m g u \<noteq> None \<or> (\<exists>d. c = Chunk g u d \<and> recording m g)) \<and>
   (\<forall>s. map_of (snd (run cs [])) g = Some s \<and> u \<in> fst ` set (audio_buffers s) \<longrightarrow>
      accepted g u cs [] \<noteq> [])"
proof (intro conjI impI allI)
  assume "buffer_of (snd (exec c m)) g u \<noteq> None"
  then show "buffer_of m g u \<noteq> None \<or> (\<exists>d. c = Chunk g u d \<and> recording m g)"
    by (rule exec_new_buffer)
next
  fix s
  assume "map_of (snd (run cs [])) g = Some s \<and> u \<in> fst ` set (audio_buffers s)"
  then have "buffer_of (snd (run cs [])) g u \<noteq> None"
    by (simp only: buffer_of_key) blast
  from run_new_buffer [OF this] show "accepted g u cs [] \<noteq> []"
    by (simp add: buffer_of_def)
qed

theorem buffers_only_from_accepted_chunks_witness:
  "buffer_of (snd (exec (Chunk 1 2 [5]) [(1, Session\<lparr>is_recording := True\<rparr>)])) 1 2 \<noteq> None \<and>
   recording [(1, Session\<lparr>is_recording := True\<rparr>)] 1 \<and>
   map_of (snd (run [Start 1, SetName 1 3 ''Bob'', Chunk 1 2 [5], Stop 1 (always PipelineError)] [])) 1 =
     Some \<lparr>is_recording = False, user_transcripts = [], user_names = [(3, ''Bob'')],
            audio_buffers = [(2, [])]\<rparr> \<and>
   2 \<in> fst ` set (audio_buffers \<lparr>is_recording = False, user_transcripts = [],
            user_names = [(3, ''Bob'')], audio_buffers = [(2, [])]\<rparr>) \<and>
   accepted 1 2 [Start 1, SetName 1 3 ''Bob'', Chunk 1 2 [5], Stop 1 (always PipelineError)] [] \<noteq> [] \<and>
   buffer_of (snd (run [Start 1, SetName 1 3 ''Bob'', Chunk 1 2 [5], Stop 1 (always PipelineError)] [])) 1 3
     = None"
  using buffers_only_from_accepted_chunks [where c = "Chunk 1 2 [5]"
      and m = "[(1, Session\<lparr>is_recording := True\<rparr>)]" and g = 1 and u = 2
      and cs = "[Start 1, SetName 1 3 ''Bob'', Chunk 1 2 [5], Stop 1 (always PipelineError)]"]
  by (simp add: trace_defs)

section \<open>Who appears in the transcript\<close>

lemma filter_update_other:
  "k \<noteq> u \<Longrightarrow> filter (\<lambda>item. fst item = u) (AList.update k v al) =
                filter (\<lambda>item. fst item = u) al"
  by (induction al) auto

lemma transcript_items_append_other:
  "u' \<noteq> u \<Longrightarrow> transcript_items (append_final_line u' t s) u = transcript_items s u"
  by (simp add: transcript_items_def append_final_line_def filter_update_other)

lemma transcript_items_frame:
  "transcript_items (s\<lparr>audio_buffers := b\<rparr>) u = transcript_items s u"
  "transcript_items (s\<lparr>is_recording := r\<rparr>) u = transcript_items s u"
  "transcript_items (s\<lparr>user_names := n\<rparr>) u = transcript_items s u"
  by (simp_all add: transcript_items_def)

lemma flush_buffer_items:
  "(u' = u \<longrightarrow> (\<forall>d raw. pipe u d \<noteq> Transcribed raw)) \<Longrightarrow>
   transcript_items (snd (snd (flush_buffer pipe s u'))) u = transcript_items s u"
  by (cases "u' = u")
    (auto simp: flush_buffer_def Let_def transcript_items_append_other transcript_items_frame
      split: flush_outcome.splits)

lemma flush_all_items:
  "\<forall>d raw. pipe u d \<noteq> Transcribed raw \<Longrightarrow>
   transcript_items (snd (snd (flush_all pipe us s))) u = transcript_items s u"
proof (induction us arbitrary: s)
  case Nil
  show ?case by simp
next
  case (Cons v us)
  then show ?case
    by (simp add: flush_all_Cons flush_buffer_items del: flush_all.simps)
qed

lemma flusher_users_items:
  "\<forall>d raw. pipe u d \<noteq> Transcribed raw \<Longrightarrow>
   transcript_items (snd (snd (flusher_users pipe us s))) u = transcript_items s u"
proof (induction us arbitrary: s)
  case Nil
  show ?case by simp
next
  case (Cons v us)
  then show ?case
    by (simp add: flusher_users_Cons flush_buffer_items del: flusher_users.simps)
qed

lemma flusher_sessions_items:
  "\<forall>d raw. pipes g u d \<noteq> Transcribed raw \<Longrightarrow>
   items_of (snd (snd (flusher_sessions pipes m))) g u = items_of m g u"
proof (induction m)
  case Nil
  show ?case by simp
next
  case (Cons p m)
  obtain g' s where p: "p = (g', s)" by (cases p)
  have "transcript_items (snd (snd (flusher_users (pipes g) us s))) u = transcript_items s u" for us
    using Cons.prems by (rule flusher_users_items)
  then show ?case
    unfolding p using Cons
    by (auto simp: flusher_sessions_Cons items_of_def simp del: flusher_sessions.simps)
qed

lemma items_of_update:
  "items_of (AList.update g' s m) g u = (if g' = g then transcript_items s u else items_of m g u)"
  by (simp add: items_of_def update_conv')

lemma items_of_get_or_create:
  "items_of (snd (get_or_create_session g' m)) g u = items_of m g u"
  by (auto simp: get_or_create_session_def items_of_def update_conv' Session_def
        transcript_items_def split: option.splits)

lemma items_of_fresh:
  "items_of m g u = transcript_items (fst (get_or_create_session g m)) u"
  by (simp add: items_of_def get_or_create_session_def Session_def transcript_items_def
        split: option.splits)

lemma items_of_start:
  "items_of (snd (start_recording g' m)) g u = items_of m g u"
  by (simp add: start_recording_def case_prod_beta Let_def items_of_update
        items_of_get_or_create items_of_fresh [of m g u] transcript_items_frame)

lemma items_of_chunk:
  "items_of (process_audio_chunk g' u' d m) g u = items_of m g u"
  by (simp add: process_audio_chunk_def case_prod_beta items_of_update
        items_of_get_or_create items_of_fresh [of m g u] transcript_items_frame)

lemma items_of_set_name:
  "items_of (set_user_name g' u' n m) g u = items_of m g u"
  by (simp add: set_user_name_def case_prod_beta items_of_update
        items_of_get_or_create items_of_fresh [of m g u] transcript_items_frame)

lemma items_of_remove:
  "items_of (remove_session g' m) g u = (if g' = g then [] else items_of m g u)"
  by (simp add: remove_session_delete items_of_def delete_conv')

lemma items_of_stop:
  "g' = g \<longrightarrow> (\<forall>d raw. pipe u d \<noteq> Transcribed raw) \<Longrightarrow>
   items_of (snd (snd (stop_recording pipe g' m))) g u = items_of m g u"
  by (cases "g' = g")
    (simp_all add: stop_recording_unfold items_of_update items_of_get_or_create
      flush_all_items items_of_fresh [of m g u] transcript_items_frame)

lemma items_of_flush_session:
  "g' = g \<and> u' = u \<longrightarrow> (\<forall>d raw. pipe u d \<noteq> Transcribed raw) \<Longrightarrow>
   items_of (snd (flush_session pipe g' u' m)) g u = items_of m g u"
proof (cases "map_of m g'")
  case None
  then show ?thesis by (simp add: flush_session_unfold)
next
  case (Some s)
  assume a: "g' = g \<and> u' = u \<longrightarrow> (\<forall>d raw. pipe u d \<noteq> Transcribed raw)"
  show ?thesis
  proof (cases "g' = g")
    case True
    with a have "u' = u \<longrightarrow> (\<forall>d raw. pipe u d \<noteq> Transcribed raw)" by simp
    from flush_buffer_items [where u' = u' and u = u and pipe = pipe, OF this] show ?thesis
      using Some True by (simp add: flush_session_unfold items_of_update) (simp add: items_of_def)
  next
    case False
    then show ?thesis using Some by (simp add: flush_session_unfold items_of_update)
  qed
qed

lemma exec_items:
  "never_transcribes g u c \<Longrightarrow> set (items_of (snd (exec c m)) g u) \<subseteq> set (items_of m g u)"
  by (cases c)
    (simp_all add: items_of_start items_of_chunk items_of_set_name items_of_remove
      items_of_stop items_of_flush_session flusher_sessions_items)

lemma run_items:
  "\<forall>c \<in> set cs. never_transcribes g u c \<Longrightarrow>
   set (items_of (snd (run cs m)) g u) \<subseteq> set (items_of m g u)"
proof (induction cs arbitrary: m)
  case Nil
  show ?case by simp
next
  case (Cons c cs)
  have "set (items_of (snd (run cs (snd (exec c m)))) g u) \<subseteq> set (items_of (snd (exec c m)) g u)"
    using Cons.prems by (intro Cons.IH) simp
  also have "\<dots> \<subseteq> set (items_of m g u)"
    using Cons.prems by (intro exec_items) simp
  finally show ?case unfolding run_Cons_proj .
qed

lemma speaker_lines_empty: "speaker_lines names item = [] \<longleftrightarrow> snd item = []"
  by (cases item) (simp add: speaker_lines_def)

lemma speaker_blocks_empty:
  "speaker_blocks s u = [] \<longleftrightarrow> (\<forall>item \<in> set (transcript_items s u). snd item = [])"
  by (simp add: speaker_blocks_def speaker_lines_empty)

lemma blocks_of_empty:
  "blocks_of m g u = [] \<longleftrightarrow> (\<forall>item \<in> set (items_of m g u). snd item = [])"
  by (cases "map_of m g") (simp_all add: blocks_of_def items_of_def speaker_blocks_empty)

lemma update_member: "(k, v) \<in> set (AList.update k v al)"
  by (induction al) auto

section \<open>The combined transcript\<close>

lemma speaker_label_fallback:
  "speaker_label names uid = display_name_or_fallback names uid"
  by (simp add: speaker_label_def display_name_or_fallback_def dict_get_def split: option.splits)

lemma lines_are_spec_blocks:
  "concat (map (speaker_lines names) items) = spec_blocks names items"
  by (induction names items rule: spec_blocks.induct)
    (simp_all add: speaker_lines_def speaker_label_fallback)

lemma join_blank_line:
  "join nl bs = (case bs of [] \<Rightarrow> [] | _ \<Rightarrow> butlast (concat (map (\<lambda>b. b @ nl) bs)))"
proof (induction bs rule: induct_list012)
  case 1
  show ?case by simp
next
  case (2 x)
  show ?case by (simp add: nl_def)
next
  case (3 x y ys)
  have nn: "nl \<noteq> []" by (simp add: nl_def)
  have ne: "concat (map (\<lambda>b. b @ nl) (y # ys)) \<noteq> []" using nn by simp
  have "join nl (x # y # ys) = x @ nl @ butlast (concat (map (\<lambda>b. b @ nl) (y # ys)))"
    using 3 by simp
  also have "\<dots> = butlast ((x @ nl) @ concat (map (\<lambda>b. b @ nl) (y # ys)))"
    using ne nn by (simp add: butlast_append)
  finally show ?case by simp
qed

lemma append_final_line_keys:
  "map fst (user_transcripts (append_final_line uid t s)) =
     (if uid \<in> fst ` set (user_transcripts s) then map fst (user_transcripts s)
      else map fst (user_transcripts s) @ [uid])"
  by (simp add: append_final_line_def update_keys)

text \<open>
  C5. \<open>get_combined_transcript\<close> returns the text that the specification words: for each
  speaker in the order of \<open>user_transcripts\<close> and each segment in the order of the
  speaker's list, the block of label, colon, newline, segment, newline, with a blank
  line between consecutive blocks. The label of a speaker without a display name is
  \<open>User\<close> followed by the decimal id, and the display name otherwise. The method is a
  function of the session that returns only the text: two sessions with the same
  transcripts and names give the same text, whatever their flag and buffers.
  \<open>append_final_line\<close> keeps the order in which the speakers were first seen (a new
  speaker goes to the end) and puts the segment at the end of the speaker's list.
\<close>

theorem combined_transcript_format:
  "get_combined_transcript s = spec_combined_transcript s \<and>
   (map_of (user_names s) uid = None \<longrightarrow>
      speaker_label (user_names s) uid = ''User '' @ str_int uid) \<and>
   (\<forall>name. map_of (user_names s) uid = Some name \<longrightarrow> speaker_label (user_names s) uid = name) \<and>
   (user_transcripts s' = user_transcripts s \<and> user_names s' = user_names s \<longrightarrow>
      get_combined_transcript s' = get_combined_transcript s) \<and>
   map fst (user_transcripts (append_final_line uid t s)) =
     (if uid \<in> fst ` set (user_transcripts s) then map fst (user_transcripts s)
      else map fst (user_transcripts s) @ [uid]) \<and>
   segments (append_final_line uid t s) uid = segments s uid @ [t]"
proof (intro conjI impI allI)
  show "get_combined_transcript s = spec_combined_transcript s"
    by (simp add: get_combined_transcript_def spec_combined_transcript_def transcript_lines_def
          lines_are_spec_blocks join_blank_line split: list.splits)
next
  assume "map_of (user_names s) uid = None"
  then show "speaker_label (user_names s) uid = ''User '' @ str_int uid"
    by (simp add: speaker_label_def dict_get_def)
next
  fix name assume "map_of (user_names s) uid = Some name"
  then show "speaker_label (user_names s) uid = name"
    by (simp add: speaker_label_def dict_get_def)
next
  assume "user_transcripts s' = user_transcripts s \<and> user_names s' = user_names s"
  then show "get_combined_transcript s' = get_combined_transcript s"
    by (simp add: get_combined_transcript_def transcript_lines_def)
next
  show "map fst (user_transcripts (append_final_line uid t s)) =
     (if uid \<in> fst ` set (user_transcripts s) then map fst (user_transcripts s)
      else map fst (user_transcripts s) @ [uid])"
    by (rule append_final_line_keys)
next
  show "segments (append_final_line uid t s) uid = segments s uid @ [t]"
    by (simp add: segments_append_final_line)
qed

theorem combined_transcript_format_witness:
  "map_of (user_names \<lparr>is_recording = False, user_transcripts = [(3, [''a'', ''b'']), (2, [''c''])],
             user_names = [(2, ''Ann'')], audio_buffers = []\<rparr>) 3 = None \<and>
   map_of (user_names \<lparr>is_recording = False, user_transcripts = [(3, [''a'', ''b'']), (2, [''c''])],
             user_names = [(2, ''Ann'')], audio_buffers = []\<rparr>) 2 = Some ''Ann'' \<and>
   speaker_label [(2, ''Ann'')] 3 = ''User 3'' \<and>
   speaker_label [(2, ''Ann'')] 2 = ''Ann'' \<and>
   get_combined_transcript \<lparr>is_recording = False,
       user_transcripts = [(3, [''a'', ''b'']), (2, [''c''])],
       user_names = [(2, ''Ann'')], audio_buffers = []\<rparr> =
     ''User 3:\<newline>a\<newline>\<newline>User 3:\<newline>b\<newline>\<newline>Ann:\<newline>c\<newline>'' \<and>
   spec_combined_transcript \<lparr>is_recording = False,
       user_transcripts = [(3, [''a'', ''b'']), (2, [''c''])],
       user_names = [(2, ''Ann'')], audio_buffers = []\<rparr> =
     ''User 3:\<newline>a\<newline>\<newline>User 3:\<newline>b\<newline>\<newline>Ann:\<newline>c\<newline>'' \<and>
   get_combined_transcript \<lparr>is_recording = True,
       user_transcripts = [(3, [''a'', ''b'']), (2, [''c''])],
       user_names = [(2, ''Ann'')], audio_buffers = [(2, [1])]\<rparr> =
     ''User 3:\<newline>a\<newline>\<newline>User 3:\<newline>b\<newline>\<newline>Ann:\<newline>c\<newline>''"
  using combined_transcript_format [where
      s = "\<lparr>is_recording = False, user_transcripts = [(3, [''a'', ''b'']), (2, [''c''])],
             user_names = [(2, ''Ann'')], audio_buffers = []\<rparr>" and uid = 3 and
      s' = "\<lparr>is_recording = True, user_transcripts = [(3, [''a'', ''b'']), (2, [''c''])],
             user_names = [(2, ''Ann'')], audio_buffers = [(2, [1])]\<rparr>"]
    combined_transcript_format [where
      s = "\<lparr>is_recording = False, user_transcripts = [(3, [''a'', ''b'']), (2, [''c''])],
             user_names = [(2, ''Ann'')], audio_buffers = []\<rparr>" and uid = 2]
  by (simp add: run_defs)

section \<open>The speakers in the returned text\<close>



text \<open>From the lines to the text that is returned.\<close>

lemma speaker_lines_elem_nonempty:
  "b \<in> set (speaker_lines names item) \<Longrightarrow> b \<noteq> []"
  by (cases item) (auto simp: speaker_lines_def nl_def)

lemma transcript_lines_elem_nonempty:
  "b \<in> set (transcript_lines s) \<Longrightarrow> b \<noteq> []"
  by (auto simp: transcript_lines_def dest: speaker_lines_elem_nonempty)

lemma join_empty_iff:
  "\<forall>b \<in> set ls. b \<noteq> [] \<Longrightarrow> join sep ls = [] \<longleftrightarrow> ls = []"
  by (induction ls rule: induct_list012) simp_all

lemma join_contains:
  "b \<in> set ls \<Longrightarrow> \<exists>pre post. join sep ls = pre @ b @ post"
proof (induction ls rule: induct_list012)
  case 1
  then show ?case by simp
next
  case (2 x)
  then have "join sep [x] = [] @ b @ []" by simp
  then show ?case by blast
next
  case (3 x y zs)
  show ?case
  proof (cases "b = x")
    case True
    then have "join sep (x # y # zs) = [] @ b @ (sep @ join sep (y # zs))" by simp
    then show ?thesis by blast
  next
    case False
    with 3 have "b \<in> set (y # zs)" by auto
    with 3 obtain pre post where "join sep (y # zs) = pre @ b @ post" by blast
    then have "join sep (x # y # zs) = (x @ sep @ pre) @ b @ post" by simp
    then show ?thesis by blast
  qed
qed

lemma lines_without_empty_items:
  "\<forall>item \<in> set ut. fst item = u \<longrightarrow> f item = [] \<Longrightarrow>
   concat (map f (filter (\<lambda>item. fst item \<noteq> u) ut)) = concat (map f ut)"
  by (induction ut) auto

lemma filter_absent_key:
  "k \<notin> fst ` set ut \<Longrightarrow> filter (\<lambda>i. fst i = k) ut = []"
  by (induction ut) auto

lemma lines_grouped_by_key:
  "distinct (map fst ut) \<Longrightarrow>
   concat (map (\<lambda>k. concat (map f (filter (\<lambda>item. fst item = k) ut))) (map fst ut)) =
     concat (map f ut)"
proof (induction ut)
  case Nil
  show ?case by simp
next
  case (Cons item ut)
  from Cons.prems have notin: "fst item \<notin> fst ` set ut" and d: "distinct (map fst ut)"
    by auto
  define G where "G = (\<lambda>k. concat (map f (filter (\<lambda>i. fst i = k) (item # ut))))"
  define G' where "G' = (\<lambda>k. concat (map f (filter (\<lambda>i. fst i = k) ut)))"
  have own: "G (fst item) = f item"
    using filter_absent_key [OF notin] by (simp add: G_def)
  have others: "map G (map fst ut) = map G' (map fst ut)"
    using notin by (intro map_cong) (auto simp: G_def G'_def)
  have "concat (map G (map fst (item # ut))) = G (fst item) @ concat (map G (map fst ut))"
    by simp
  also have "\<dots> = f item @ concat (map G' (map fst ut))"
    by (simp only: own others)
  also have "\<dots> = f item @ concat (map f ut)"
    using Cons.IH [OF d] by (simp only: G'_def)
  finally show ?case by (simp add: G_def)
qed

lemma speaker_label_update_other:
  "v \<noteq> u \<Longrightarrow> speaker_label (AList.update u n names) v = speaker_label names v"
  by (simp add: speaker_label_def dict_get_update)

lemma speaker_lines_update_name:
  "fst item = u \<longrightarrow> snd item = [] \<Longrightarrow>
   speaker_lines (AList.update u n names) item = speaker_lines names item"
  by (cases item) (auto simp: speaker_lines_def speaker_label_update_other)

lemma transcript_unchanged_by_name:
  "speaker_blocks s u = [] \<Longrightarrow>
   get_combined_transcript (s\<lparr>user_names := AList.update u n (user_names s)\<rparr>) =
     get_combined_transcript s"
proof -
  assume "speaker_blocks s u = []"
  then have "\<forall>item \<in> set (user_transcripts s). fst item = u \<longrightarrow> snd item = []"
    by (auto simp: speaker_blocks_empty transcript_items_def)
  then have eq: "map (speaker_lines (AList.update u n (user_names s))) (user_transcripts s) =
             map (speaker_lines (user_names s)) (user_transcripts s)"
    by (intro map_cong) (auto intro: speaker_lines_update_name)
  have "transcript_lines (s\<lparr>user_names := AList.update u n (user_names s)\<rparr>) =
        concat (map (speaker_lines (AList.update u n (user_names s))) (user_transcripts s))"
    by (simp add: transcript_lines_def)
  also have "\<dots> = concat (map (speaker_lines (user_names s)) (user_transcripts s))"
    by (simp only: eq)
  also have "\<dots> = transcript_lines s"
    by (simp add: transcript_lines_def)
  finally show ?thesis
    by (simp add: get_combined_transcript_def)
qed

lemma transcript_of_set_name:
  "blocks_of m g' u = [] \<Longrightarrow>
   transcript_of (set_user_name g' u n m) g = transcript_of m g"
proof (cases "g' = g")
  case False
  then show ?thesis
    by (simp add: set_user_name_def case_prod_beta transcript_of_def update_conv'
          map_of_get_or_create_other)
next
  case True
  assume b: "blocks_of m g' u = []"
  show ?thesis
  proof (cases "map_of m g")
    case None
    then show ?thesis
      by (simp add: True set_user_name_def get_or_create_session_def transcript_of_def
            update_conv' Session_def get_combined_transcript_def transcript_lines_def)
  next
    case (Some s)
    with b True have "speaker_blocks s u = []" by (simp add: blocks_of_def)
    from transcript_unchanged_by_name [OF this] show ?thesis
      using Some by (simp add: True set_user_name_def get_or_create_session_def
            transcript_of_def update_conv')
  qed
qed

lemma stop_returns_transcript_of:
  "stop_recording pipe g m = (Some t, h, m') \<Longrightarrow> t = transcript_of m' g"
  by (auto simp: stop_recording_unfold transcript_of_def update_conv' split: if_splits)

lemma transcript_empty_iff:
  "get_combined_transcript s = [] \<longleftrightarrow> transcript_lines s = []"
  unfolding get_combined_transcript_def
  by (rule join_empty_iff) (auto dest: transcript_lines_elem_nonempty)

lemma lines_are_all_blocks:
  "set (transcript_lines s) = (\<Union>v. set (speaker_blocks s v))"
  by (auto simp: transcript_lines_def speaker_blocks_def transcript_items_def)

lemma transcript_items_empty_key:
  "transcript_items s u = [] \<Longrightarrow> u \<notin> fst ` set (user_transcripts s)"
  by (auto simp: transcript_items_def filter_empty_conv)

text \<open>
  C10. The text that \<open>get_combined_transcript\<close> returns is made of the speakers' blocks:
  it is empty exactly when no speaker has a block, every block of a speaker is a part of
  it, and with distinct keys (as a dictionary has them) it is the join of the blocks of
  the speakers in first-seen order. A speaker has a block exactly when \<open>user_transcripts\<close>
  has an item for the speaker with at least one segment; a speaker without a block leaves
  no trace in the text, which is the same as without the speaker's entry.
  \<open>append_final_line\<close> gives the speaker a block. \<open>set_user_name\<close> neither makes a speaker
  appear nor disappear, and for a speaker without a block it leaves the text of every
  guild as it was. After any sequence of calls on a new manager in which no flush of
  guild \<open>g\<close> yields a text for speaker \<open>u\<close> (every flush of \<open>u\<close> failed, or there was none),
  \<open>user_transcripts\<close> of \<open>g\<close> has no entry for \<open>u\<close> and the transcript has no block for \<open>u\<close>,
  not even an empty one. What \<open>stop_recording\<close> returns is this text for the session it
  leaves under the guild id.
\<close>

theorem block_iff_segment:
  "(speaker_blocks s u \<noteq> [] \<longleftrightarrow>
      (\<exists>texts. (u, texts) \<in> set (user_transcripts s) \<and> texts \<noteq> [])) \<and>
   set (transcript_lines s) = (\<Union>v. set (speaker_blocks s v)) \<and>
   (get_combined_transcript s = [] \<longleftrightarrow> (\<forall>v. speaker_blocks s v = [])) \<and>
   (\<forall>b \<in> set (speaker_blocks s u). \<exists>pre post. get_combined_transcript s = pre @ b @ post) \<and>
   (speaker_blocks s u = [] \<longrightarrow>
      get_combined_transcript s =
        get_combined_transcript
          (s\<lparr>user_transcripts := filter (\<lambda>item. fst item \<noteq> u) (user_transcripts s)\<rparr>)) \<and>
   (distinct (map fst (user_transcripts s)) \<longrightarrow>
      get_combined_transcript s =
        join nl (concat (map (speaker_blocks s) (map fst (user_transcripts s))))) \<and>
   speaker_blocks (append_final_line u t s) u \<noteq> [] \<and>
   (blocks_of (set_user_name g' u' n m) g u = [] \<longleftrightarrow> blocks_of m g u = []) \<and>
   (blocks_of m g' u' = [] \<longrightarrow>
      transcript_of (set_user_name g' u' n m) g = transcript_of m g) \<and>
   ((\<forall>c \<in> set cs. never_transcribes g u c) \<longrightarrow>
      blocks_of (snd (run cs [])) g u = [] \<and>
      (\<forall>s1. map_of (snd (run cs [])) g = Some s1 \<longrightarrow> u \<notin> fst ` set (user_transcripts s1))) \<and>
   (stop_recording pipe g m = (Some t', h, m') \<longrightarrow> t' = transcript_of m' g)"
proof (intro conjI impI allI ballI)
  show "speaker_blocks s u \<noteq> [] \<longleftrightarrow>
      (\<exists>texts. (u, texts) \<in> set (user_transcripts s) \<and> texts \<noteq> [])"
    by (auto simp: speaker_blocks_empty transcript_items_def)
next
  show "set (transcript_lines s) = (\<Union>v. set (speaker_blocks s v))"
    by (rule lines_are_all_blocks)
next
  have "transcript_lines s = [] \<longleftrightarrow> (\<forall>v. speaker_blocks s v = [])"
    using lines_are_all_blocks [of s] by (auto simp flip: set_empty)
  then show "get_combined_transcript s = [] \<longleftrightarrow> (\<forall>v. speaker_blocks s v = [])"
    by (simp add: transcript_empty_iff)
next
  fix b assume "b \<in> set (speaker_blocks s u)"
  then have "b \<in> set (transcript_lines s)"
    using lines_are_all_blocks [of s] by blast
  then show "\<exists>pre post. get_combined_transcript s = pre @ b @ post"
    unfolding get_combined_transcript_def by (rule join_contains)
next
  assume "speaker_blocks s u = []"
  then have "\<forall>item \<in> set (user_transcripts s).
               fst item = u \<longrightarrow> speaker_lines (user_names s) item = []"
    by (auto simp: speaker_blocks_empty transcript_items_def speaker_lines_empty)
  from lines_without_empty_items [OF this]
  show "get_combined_transcript s =
        get_combined_transcript
          (s\<lparr>user_transcripts := filter (\<lambda>item. fst item \<noteq> u) (user_transcripts s)\<rparr>)"
    by (simp add: get_combined_transcript_def transcript_lines_def)
next
  assume "distinct (map fst (user_transcripts s))"
  have sb: "speaker_blocks s =
      (\<lambda>k. concat (map (speaker_lines (user_names s))
             (filter (\<lambda>item. fst item = k) (user_transcripts s))))"
    by (rule ext) (simp add: speaker_blocks_def transcript_items_def)
  have "concat (map (speaker_blocks s) (map fst (user_transcripts s))) = transcript_lines s"
    unfolding sb transcript_lines_def
    using \<open>distinct (map fst (user_transcripts s))\<close> by (rule lines_grouped_by_key)
  then show "get_combined_transcript s =
        join nl (concat (map (speaker_blocks s) (map fst (user_transcripts s))))"
    by (simp only: get_combined_transcript_def)
next
  have "(u, segments s u @ [t]) \<in> set (transcript_items (append_final_line u t s) u)"
    by (simp add: transcript_items_def append_final_line_def update_member)
  then have "\<exists>item \<in> set (transcript_items (append_final_line u t s) u). snd item \<noteq> []"
    by (rule rev_bexI) simp
  then show "speaker_blocks (append_final_line u t s) u \<noteq> []"
    by (simp add: speaker_blocks_empty)
next
  show "blocks_of (set_user_name g' u' n m) g u = [] \<longleftrightarrow> blocks_of m g u = []"
    by (simp add: blocks_of_empty items_of_set_name)
next
  assume "blocks_of m g' u' = []"
  then show "transcript_of (set_user_name g' u' n m) g = transcript_of m g"
    by (rule transcript_of_set_name)
next
  assume nt: "\<forall>c \<in> set cs. never_transcribes g u c"
  from run_items [OF nt, of "[]"]
  have "set (items_of (snd (run cs [])) g u) \<subseteq> set (items_of [] g u)" .
  moreover have "items_of [] g u = []" by (simp add: items_of_def)
  ultimately have none: "items_of (snd (run cs [])) g u = []" by simp
  then show "blocks_of (snd (run cs [])) g u = []"
    by (simp add: blocks_of_empty)
  fix s1 assume "map_of (snd (run cs [])) g = Some s1"
  with none have "transcript_items s1 u = []" by (simp add: items_of_def)
  then show "u \<notin> fst ` set (user_transcripts s1)"
    by (rule transcript_items_empty_key)
next
  assume "stop_recording pipe g m = (Some t', h, m')"
  then show "t' = transcript_of m' g" by (rule stop_returns_transcript_of)
qed

theorem block_iff_segment_witness:
  "list_all (never_transcribes 1 2) [Start 1, SetName 1 2 ''Ann'', Chunk 1 2 [5], Chunk 1 3 [6],
                Flush 1 2 (fails_for 2 ''hi''), Chunk 1 2 [7], Stop 1 (fails_for 2 ''hi'')] \<and>
   snd (run [Start 1, SetName 1 2 ''Ann'', Chunk 1 2 [5], Chunk 1 3 [6],
             Flush 1 2 (fails_for 2 ''hi''), Chunk 1 2 [7], Stop 1 (fails_for 2 ''hi'')] []) =
     [(1, \<lparr>is_recording = False, user_transcripts = [(3, [''hi''])],
            user_names = [(2, ''Ann'')], audio_buffers = [(2, []), (3, [])]\<rparr>)] \<and>
   blocks_of (snd (run [Start 1, SetName 1 2 ''Ann'', Chunk 1 2 [5], Chunk 1 3 [6],
             Flush 1 2 (fails_for 2 ''hi''), Chunk 1 2 [7], Stop 1 (fails_for 2 ''hi'')] [])) 1 2 = [] \<and>
   blocks_of (snd (run [Start 1, SetName 1 2 ''Ann'', Chunk 1 2 [5], Chunk 1 3 [6],
             Flush 1 2 (fails_for 2 ''hi''), Chunk 1 2 [7], Stop 1 (fails_for 2 ''hi'')] [])) 1 3 =
     [''User 3:\<newline>hi\<newline>''] \<and>
   transcript_of (snd (run [Start 1, SetName 1 2 ''Ann'', Chunk 1 2 [5], Chunk 1 3 [6],
             Flush 1 2 (fails_for 2 ''hi''), Chunk 1 2 [7], Stop 1 (fails_for 2 ''hi'')] [])) 1 =
     ''User 3:\<newline>hi\<newline>'' \<and>
   distinct (map fst (user_transcripts \<lparr>is_recording = False, user_transcripts = [(3, [''hi''])],
            user_names = [(2, ''Ann'')], audio_buffers = [(2, []), (3, [])]\<rparr>)) \<and>
   get_combined_transcript \<lparr>is_recording = False, user_transcripts = [(3, [''hi''])],
            user_names = [(2, ''Ann'')], audio_buffers = [(2, []), (3, [])]\<rparr> =
     join nl (concat (map (speaker_blocks \<lparr>is_recording = False,
            user_transcripts = [(3, [''hi''])], user_names = [(2, ''Ann'')],
            audio_buffers = [(2, []), (3, [])]\<rparr>) [3])) \<and>
   transcript_of (set_user_name 1 2 ''Bob''
       [(1, \<lparr>is_recording = False, user_transcripts = [(3, [''hi''])],
            user_names = [(2, ''Ann'')], audio_buffers = [(2, []), (3, [])]\<rparr>)]) 1 =
     ''User 3:\<newline>hi\<newline>''"
proof -
  have h1: "\<forall>c \<in> set [Start 1, SetName 1 2 ''Ann'', Chunk 1 2 [5], Chunk 1 3 [6],
                Flush 1 2 (fails_for 2 ''hi''), Chunk 1 2 [7], Stop 1 (fails_for 2 ''hi'')].
       never_transcribes 1 2 c"
    by (simp add: fails_for_def)
  have h2: "snd (run [Start 1, SetName 1 2 ''Ann'', Chunk 1 2 [5], Chunk 1 3 [6],
             Flush 1 2 (fails_for 2 ''hi''), Chunk 1 2 [7], Stop 1 (fails_for 2 ''hi'')] []) =
     [(1, \<lparr>is_recording = False, user_transcripts = [(3, [''hi''])],
            user_names = [(2, ''Ann'')], audio_buffers = [(2, []), (3, [])]\<rparr>)]"
    by (simp add: trace_defs)
  have h3: "blocks_of [(1, \<lparr>is_recording = False, user_transcripts = [(3, [''hi''])],
            user_names = [(2, ''Ann'')], audio_buffers = [(2, []), (3, [])]\<rparr>)] 1 3 =
     [''User 3:\<newline>hi\<newline>'']"
    by (simp add: blocks_of_def speaker_blocks_def transcript_items_def trace_defs)
  have h4: "transcript_of [(1, \<lparr>is_recording = False, user_transcripts = [(3, [''hi''])],
            user_names = [(2, ''Ann'')], audio_buffers = [(2, []), (3, [])]\<rparr>)] 1 =
     ''User 3:\<newline>hi\<newline>''"
    by (simp add: transcript_of_def trace_defs)
  have h5: "blocks_of [(1, \<lparr>is_recording = False, user_transcripts = [(3, [''hi''])],
            user_names = [(2, ''Ann'')], audio_buffers = [(2, []), (3, [])]\<rparr>)] 1 2 = []"
    by (simp add: blocks_of_def speaker_blocks_def transcript_items_def)
  note t = block_iff_segment [where g = 1 and u = 2 and g' = 1 and u' = 2 and n = "''Bob''"
      and s = "\<lparr>is_recording = False, user_transcripts = [(3, [''hi''])],
            user_names = [(2, ''Ann'')], audio_buffers = [(2, []), (3, [])]\<rparr>"
      and m = "[(1, \<lparr>is_recording = False, user_transcripts = [(3, [''hi''])],
            user_names = [(2, ''Ann'')], audio_buffers = [(2, []), (3, [])]\<rparr>)]"
      and cs = "[Start 1, SetName 1 2 ''Ann'', Chunk 1 2 [5], Chunk 1 3 [6],
             Flush 1 2 (fails_for 2 ''hi''), Chunk 1 2 [7], Stop 1 (fails_for 2 ''hi'')]"]
  from t h1 h2 h3 h4 h5 show ?thesis by (simp add: fails_for_def)
qed

end
